theory Spec2Isabelle
  imports
    Main
    "HOL-Library.Word"
    "HOL-Library.Char_ord"
    "HOL-Library.List_Lexorder"
    "HOL-Library.Sublist"
begin

unbundle bit_operations_syntax

section \<open>Data model of \<^verbatim>\<open>src/picker.ts\<close>\<close>

text \<open>
  JavaScript strings are sequences of UTF-16 code units, and \<^verbatim>\<open>length\<close>, \<^verbatim>\<open>slice\<close> and the
  offsets of the compiler count code units. Source text, snippets and matched text are
  therefore lists of 16-bit words. Identifiers, file names, patterns and messages, which the
  program only concatenates, compares and sorts, are HOL strings.
\<close>

type_synonym code_unit = "16 word"
type_synonym js_string = "code_unit list"

text \<open>
  The exported interfaces. Fields that share a name in the source carry a prefix, as does
  \<^verbatim>\<open>file\<close>, a reserved word here.
\<close>

record DeclarationInfo =
  decl_file :: string
  decl_line :: nat
  decl_column :: nat
  decl_kind :: string
  snippet :: js_string

record PropertyInfo =
  prop_name :: string
  prop_type :: string
  optional :: bool

datatype SignatureKind = Call | Construct

record SignatureInfo =
  sig_kind :: SignatureKind
  signature :: string

datatype DiagnosticCategory = CategoryWarning | CategoryError | CategorySuggestion | CategoryMessage

record DiagnosticInfo =
  category :: DiagnosticCategory
  message :: string
  diag_file :: "string option"
  diag_line :: "nat option"
  diag_column :: "nat option"

record FlagSummary =
  flags :: "32 word"
  names :: "string list"

record SymbolInfo =
  sym_name :: string
  sym_flags :: FlagSummary

record Position =
  line :: int
  column :: int
  offset :: nat

record TypeInfo =
  info_file :: string
  project :: "string option"
  position :: Position
  matchedText :: js_string
  nodeKind :: string
  typeString :: string
  typeFlags :: FlagSummary
  symbol :: "SymbolInfo option"
  signatures :: "SignatureInfo list"
  properties :: "PropertyInfo list"
  declarations :: "DeclarationInfo list"
  diagnostics :: "DiagnosticInfo list"

section \<open>Output filters of \<^verbatim>\<open>src/cli.ts\<close>\<close>

text \<open>
  The three boolean options \<^verbatim>\<open>applyOutputFilters\<close> reads from the parsed command line
  (\<^verbatim>\<open>parseArgs\<close> yields \<^verbatim>\<open>true\<close> or leaves the key undefined, which is falsy).
\<close>

record CliValues =
  omit_diagnostics :: bool
  omit_properties :: bool
  omit_signatures :: bool

text \<open>
  The clone is the spread of \<^verbatim>\<open>result\<close> with fresh copies of the three lists; each option
  then overwrites its own list.
\<close>

definition applyOutputFilters :: "TypeInfo \<Rightarrow> CliValues \<Rightarrow> TypeInfo" where
  "applyOutputFilters result values =
     (let clone = result\<lparr>diagnostics := diagnostics result,
                         properties := properties result,
                         signatures := signatures result\<rparr>;
          clone = (if omit_diagnostics values then clone\<lparr>diagnostics := []\<rparr> else clone);
          clone = (if omit_properties values then clone\<lparr>properties := []\<rparr> else clone);
          clone = (if omit_signatures values then clone\<lparr>signatures := []\<rparr> else clone)
      in clone)"

section \<open>Flag names\<close>

text \<open>
  An enumeration object as \<^verbatim>\<open>Object.entries\<close> lists it. A numeric TypeScript enumeration
  maps every name to its number and every number, as a string key, back to its name, so the
  values are numbers or strings. The numbers of a flag enumeration are 32-bit integers, the
  domain of JavaScript's bitwise operators.
\<close>

datatype js_value = JsNumber "32 word" | JsString string

definition isSingleBit :: "32 word \<Rightarrow> bool" where
  "isSingleBit v = (v \<noteq> 0 \<and> (v AND (v - 1)) = 0)"

text \<open>\<^verbatim>\<open>Set.prototype.add\<close> on an insertion-ordered set of names.\<close>

definition set_add :: "string list \<Rightarrow> string \<Rightarrow> string list" where
  "set_add ns n = (if n \<in> set ns then ns else ns @ [n])"

text \<open>The \<^verbatim>\<open>for\<close> loop of \<^verbatim>\<open>collectFlagNames\<close>, with its three \<^verbatim>\<open>continue\<close> guards.\<close>

fun flagNamesLoop :: "(string \<times> js_value) list \<Rightarrow> 32 word \<Rightarrow> string list \<Rightarrow> string list" where
  "flagNamesLoop [] flagBits ns = ns"
| "flagNamesLoop ((name, JsString s) # rest) flagBits ns = flagNamesLoop rest flagBits ns"
| "flagNamesLoop ((name, JsNumber v) # rest) flagBits ns =
     (if \<not> isSingleBit v then flagNamesLoop rest flagBits ns
      else if (flagBits AND v) = 0 then flagNamesLoop rest flagBits ns
      else flagNamesLoop rest flagBits (set_add ns name))"

text \<open>
  \<^verbatim>\<open>Array.from(names).sort()\<close>: the default sort compares strings by code units, which is
  the lexicographic order of the character codes.
\<close>

definition collectFlagNames :: "(string \<times> js_value) list \<Rightarrow> 32 word \<Rightarrow> string list" where
  "collectFlagNames flagEnum flagBits = sort (flagNamesLoop flagEnum flagBits [])"

section \<open>Declaration snippets\<close>

text \<open>
  The code units that \<^verbatim>\<open>\s\<close> matches and \<^verbatim>\<open>trim\<close> strips: the white space and line
  terminators of ECMAScript.
\<close>

definition isWhiteSpace :: "code_unit \<Rightarrow> bool" where
  "isWhiteSpace c =
     (c = 0x09 \<or> c = 0x0A \<or> c = 0x0B \<or> c = 0x0C \<or> c = 0x0D \<or> c = 0x20 \<or> c = 0xA0
      \<or> c = 0x1680 \<or> (0x2000 \<le> c \<and> c \<le> 0x200A) \<or> c = 0x2028 \<or> c = 0x2029
      \<or> c = 0x202F \<or> c = 0x205F \<or> c = 0x3000 \<or> c = 0xFEFF)"

text \<open>\<^verbatim>\<open>replace(/\s+/g, " ")\<close>: every maximal run of white space becomes one space.\<close>

function collapseWhitespace :: "js_string \<Rightarrow> js_string" where
  "collapseWhitespace [] = []"
| "collapseWhitespace (c # cs) =
     (if isWhiteSpace c then 0x20 # collapseWhitespace (dropWhile isWhiteSpace cs)
      else c # collapseWhitespace cs)"
  by pat_completeness auto
termination
  by (relation "measure length") (auto simp: le_imp_less_Suc length_dropWhile_le)

definition trim :: "js_string \<Rightarrow> js_string" where
  "trim s = rev (dropWhile isWhiteSpace (rev (dropWhile isWhiteSpace s)))"

text \<open>
  What the template literal appends after the slice. The source file holds the three code
  units U+00E2, U+20AC and U+00A6 there (the bytes of an ellipsis in UTF-8, read in
  Windows-1252 and encoded again), not the single code unit U+2026 of the ellipsis.
\<close>

definition truncationMarker :: js_string where
  "truncationMarker = [0xE2, 0x20AC, 0xA6]"

definition ellipsis :: code_unit where
  "ellipsis = 0x2026"

definition condenseSnippet :: "js_string \<Rightarrow> nat \<Rightarrow> js_string" where
  "condenseSnippet snip maxLength =
     (let singleLine = trim (collapseWhitespace snip)
      in if length singleLine \<le> maxLength then singleLine
         else take maxLength singleLine @ truncationMarker)"

text \<open>The default of the parameter \<^verbatim>\<open>maxLength\<close>.\<close>

definition defaultMaxLength :: nat where
  "defaultMaxLength = 160"

text \<open>
  A snippet that has nothing to collapse or trim: every white-space code unit is a space
  that a visible code unit follows, and the first code unit is visible.
\<close>

fun wellSpaced :: "js_string \<Rightarrow> bool" where
  "wellSpaced [] = True"
| "wellSpaced [c] = (\<not> isWhiteSpace c)"
| "wellSpaced (a # b # cs) =
     ((if isWhiteSpace a then a = 0x20 \<and> \<not> isWhiteSpace b else True) \<and> wellSpaced (b # cs))"

definition singleLined :: "js_string \<Rightarrow> bool" where
  "singleLined s = (wellSpaced s \<and> (case s of [] \<Rightarrow> True | c # _ \<Rightarrow> \<not> isWhiteSpace c))"

section \<open>Syntax trees and source files\<close>

text \<open>
  A node of the compiler's syntax tree: the label \<^verbatim>\<open>ts.SyntaxKind[node.kind]\<close>, the full
  start (leading trivia included), the start of the first token, the end, and the children
  in the order \<^verbatim>\<open>forEachChild\<close> visits them.
\<close>

datatype node = Node (kind: string) (getFullStart: nat) (getStart: nat) (getEnd: nat)
  (childNodes: "node list")

record SourceFile =
  fileName :: string
  getFullText :: js_string
  getLineStarts :: "nat list"
  rootNode :: node

text \<open>\<^verbatim>\<open>String.prototype.slice\<close> for two non-negative indices.\<close>

definition slice :: "js_string \<Rightarrow> nat \<Rightarrow> nat \<Rightarrow> js_string" where
  "slice s a b = take (b - a) (drop a s)"

definition getText :: "SourceFile \<Rightarrow> node \<Rightarrow> js_string" where
  "getText sf n = slice (getFullText sf) (getStart n) (getEnd n)"

text \<open>
  What the program throws: \<^verbatim>\<open>new Error(message)\<close> of its own, an exception out of
  the compiler (a failed assertion), and the \<^verbatim>\<open>SyntaxError\<close> of the \<^verbatim>\<open>RegExp\<close> constructor.
\<close>

datatype error = Error string | DebugFailure | SyntaxError

text \<open>
  Modelled from the spec: the oracle's mapping between offsets and (line, character) pairs,
  which belongs to the compiler and not to the repository. The compiler keeps the table of
  the offsets at which the lines start; a zero-based line and character name the offset
  \<^verbatim>\<open>lineStarts[line] + character\<close>, which must lie on that line (on the last line: within the
  text), and an offset lies on the last line that starts at or before it.
\<close>

definition getPositionOfLineAndCharacter :: "SourceFile \<Rightarrow> int \<Rightarrow> int \<Rightarrow> error + nat" where
  "getPositionOfLineAndCharacter sf l c =
     (let lineStarts = getLineStarts sf in
      if l < 0 \<or> int (length lineStarts) \<le> l then Inl DebugFailure
      else
        let res = int (lineStarts ! nat l) + c in
        if nat l < length lineStarts - 1
        then (if res < int (lineStarts ! (nat l + 1)) then Inr (nat res) else Inl DebugFailure)
        else (if res \<le> int (length (getFullText sf)) then Inr (nat res) else Inl DebugFailure))"

definition computeLineOfPosition :: "nat list \<Rightarrow> nat \<Rightarrow> nat" where
  "computeLineOfPosition lineStarts p = length (takeWhile (\<lambda>s. s \<le> p) lineStarts) - 1"

definition getLineAndCharacterOfPosition :: "SourceFile \<Rightarrow> nat \<Rightarrow> nat \<times> nat" where
  "getLineAndCharacterOfPosition sf p =
     (let lineNumber = computeLineOfPosition (getLineStarts sf) p
      in (lineNumber, p - getLineStarts sf ! lineNumber))"

section \<open>Node locator\<close>

text \<open>
  The closure \<^verbatim>\<open>visit\<close> of \<^verbatim>\<open>findClosestNode\<close>, with the variable \<^verbatim>\<open>bestNode\<close> it assigns
  passed through. \<^verbatim>\<open>visit\<close> returns nothing, so \<^verbatim>\<open>forEachChild\<close> calls it on every child.
\<close>

fun visit :: "nat \<Rightarrow> node \<Rightarrow> node \<Rightarrow> node" where
  "visit p (Node k fs s e cs) bestNode =
     (if p < fs \<or> p > e then bestNode
      else fold (visit p) cs (if p \<ge> s \<and> p \<le> e then Node k fs s e cs else bestNode))"

definition findClosestNode :: "SourceFile \<Rightarrow> nat \<Rightarrow> node" where
  "findClosestNode sf p = visit p (rootNode sf) (rootNode sf)"

text \<open>
  The notions the locator's contract speaks of. The full span of a node runs from its full
  start to its end, the token span from its start to its end, both ends included.
  \<open>nodesOf\<close> lists a tree in depth-first pre-order, each node before its descendants and
  these before its later siblings; \<open>depthsOf\<close> pairs every node with its depth.
  \<open>candidates\<close> lists, in the same order, the nodes whose token span contains the offset and
  that are reached from the root through nodes whose full span contains it.
\<close>

definition inFullSpan :: "nat \<Rightarrow> node \<Rightarrow> bool" where
  "inFullSpan p n = (getFullStart n \<le> p \<and> p \<le> getEnd n)"

definition inTokenSpan :: "nat \<Rightarrow> node \<Rightarrow> bool" where
  "inTokenSpan p n = (getStart n \<le> p \<and> p \<le> getEnd n)"

fun nodesOf :: "node \<Rightarrow> node list" where
  "nodesOf (Node k fs s e cs) = Node k fs s e cs # concat (map nodesOf cs)"

fun depthsOf :: "nat \<Rightarrow> node \<Rightarrow> (nat \<times> node) list" where
  "depthsOf d (Node k fs s e cs) = (d, Node k fs s e cs) # concat (map (depthsOf (Suc d)) cs)"

fun candidates :: "nat \<Rightarrow> node \<Rightarrow> node list" where
  "candidates p (Node k fs s e cs) =
     (if fs \<le> p \<and> p \<le> e
      then (if s \<le> p \<and> p \<le> e then [Node k fs s e cs] else []) @ concat (map (candidates p) cs)
      else [])"

text \<open>
  Two small files and their trees, as the compiler parses them. The first is the text
  \<^verbatim>\<open>  x;\<close>, two spaces of leading trivia before the statement. The second is \<^verbatim>\<open>a.b+c\<close>.
\<close>

definition tree1_x :: node where
  "tree1_x = Node ''Identifier'' 0 2 3 []"

definition tree1_statement :: node where
  "tree1_statement = Node ''ExpressionStatement'' 0 2 4 [tree1_x]"

definition file1 :: SourceFile where
  "file1 = \<lparr>fileName = ''one.ts'', getFullText = [0x20, 0x20, 0x78, 0x3B], getLineStarts = [0],
            rootNode = Node ''SourceFile'' 0 2 4 [tree1_statement, Node ''EndOfFileToken'' 4 4 4 []]\<rparr>"

definition tree2_b :: node where
  "tree2_b = Node ''Identifier'' 2 2 3 []"

definition tree2_plus :: node where
  "tree2_plus = Node ''PlusToken'' 3 3 4 []"

definition tree2_access :: node where
  "tree2_access = Node ''PropertyAccessExpression'' 0 0 3 [Node ''Identifier'' 0 0 1 [], tree2_b]"

definition tree2_binary :: node where
  "tree2_binary = Node ''BinaryExpression'' 0 0 5 [tree2_access, tree2_plus, Node ''Identifier'' 4 4 5 []]"

definition file2 :: SourceFile where
  "file2 = \<lparr>fileName = ''two.ts'', getFullText = [0x61, 0x2E, 0x62, 0x2B, 0x63], getLineStarts = [0],
            rootNode = Node ''SourceFile'' 0 0 5
              [Node ''ExpressionStatement'' 0 0 5 [tree2_binary], Node ''EndOfFileToken'' 5 5 5 []]\<rparr>"

section \<open>Query resolver\<close>

text \<open>The two variants of \<^verbatim>\<open>TypeQuery\<close>; numbers are integers, optional fields are options.\<close>

datatype TypeQuery =
    PositionQuery (q_file: string) (q_project: "string option") (q_line: int) (q_column: int)
  | RegexQuery (q_file: string) (q_project: "string option") (q_regex: string)
      (q_regexFlags: "string option") (q_matchIndex: "int option")

record QueryResolution =
  res_position :: nat
  res_line :: int
  res_column :: int
  res_matchedText :: js_string

definition includeGlobalFlag :: "string \<Rightarrow> string" where
  "includeGlobalFlag fl = (if CHR ''g'' \<in> set fl then fl else fl @ ''g'')"

text \<open>
  Modelled from the spec: the pattern engine, which is the \<^verbatim>\<open>RegExp\<close> of the JavaScript
  runtime and not part of the repository. A compiled pattern is its matcher, which tells for
  a text and a start index where the match starting there ends, if there is one, together
  with the flags that steer \<^verbatim>\<open>exec\<close>. The constructor rejects a malformed pattern or flag
  string.
\<close>

type_synonym matcher = "js_string \<Rightarrow> nat \<Rightarrow> nat option"

record RegExp =
  re_matcher :: matcher
  global :: bool
  sticky :: bool

type_synonym regexp_compiler = "string \<Rightarrow> string \<Rightarrow> matcher option"

definition newRegExp :: "regexp_compiler \<Rightarrow> string \<Rightarrow> string \<Rightarrow> error + RegExp" where
  "newRegExp compile pattern fl =
     (case compile pattern fl of
        None \<Rightarrow> Inl SyntaxError
      | Some m \<Rightarrow> Inr \<lparr>re_matcher = m, global = (CHR ''g'' \<in> set fl), sticky = (CHR ''y'' \<in> set fl)\<rparr>)"

fun firstMatch :: "matcher \<Rightarrow> js_string \<Rightarrow> nat list \<Rightarrow> (nat \<times> nat) option" where
  "firstMatch m text [] = None"
| "firstMatch m text (i # rest) =
     (case m text i of Some e \<Rightarrow> Some (i, e) | None \<Rightarrow> firstMatch m text rest)"

text \<open>
  Modelled from the spec: \<^verbatim>\<open>RegExp.prototype.exec\<close> as ECMAScript defines it. The search
  starts at \<^verbatim>\<open>lastIndex\<close> (at 0 without the global or sticky flag) and tries each index up to
  the length of the text (only the first with the sticky flag). A match yields its index and
  the matched substring and stores the end of the match in \<^verbatim>\<open>lastIndex\<close>; a failure yields
  \<^verbatim>\<open>null\<close> and stores 0. The result is paired with the new \<^verbatim>\<open>lastIndex\<close>.
\<close>

definition regExpExec :: "RegExp \<Rightarrow> js_string \<Rightarrow> nat \<Rightarrow> (nat \<times> js_string) option \<times> nat" where
  "regExpExec re text lastIndex =
     (let tracked = (global re \<or> sticky re);
          start = (if tracked then lastIndex else 0);
          tries = (if sticky re then [start] else [start ..< Suc (length text)])
      in if start > length text then (None, if tracked then 0 else lastIndex)
         else (case firstMatch (re_matcher re) text tries of
                 None \<Rightarrow> (None, if tracked then 0 else lastIndex)
               | Some (i, e) \<Rightarrow> (Some (i, slice text i e), if tracked then e else lastIndex)))"

text \<open>Decimal rendering of an integer, as a template literal renders a number.\<close>

definition digit_char :: "nat \<Rightarrow> char" where
  "digit_char d = ''0123456789'' ! d"

function decimalDigits :: "nat \<Rightarrow> string" where
  "decimalDigits n =
     (if 10 \<le> n then decimalDigits (n div 10) @ [digit_char (n mod 10)] else [digit_char n])"
  by pat_completeness auto
termination
  by (relation "measure id") auto

declare decimalDigits.simps [simp del]

definition numberToString :: "int \<Rightarrow> string" where
  "numberToString i =
     (if 0 \<le> i then decimalDigits (nat i) else CHR ''-'' # decimalDigits (nat (- i)))"

text \<open>The message of the error thrown after the \<^verbatim>\<open>while\<close> loop.\<close>

definition noMatchMessage :: "string \<Rightarrow> int \<Rightarrow> string \<Rightarrow> string" where
  "noMatchMessage regex matchIndex fname =
     ''Regex '' @ [CHR 0x22] @ regex @ [CHR 0x22] @ '' did not match index ''
       @ numberToString matchIndex @ '' in '' @ fname"

definition positionMessage :: string where
  "positionMessage = ''Line and column must be 1-based and positive''"

text \<open>
  The \<^verbatim>\<open>while\<close> loop of \<^verbatim>\<open>resolvePosition\<close>, with the matcher's \<^verbatim>\<open>lastIndex\<close> and the counter
  \<^verbatim>\<open>index\<close> as arguments. Nothing bounds the number of iterations, so the loop is a partial
  function: \<open>None\<close> is a run that never returns.
\<close>

partial_function (option) matchLoop ::
  "RegExp \<Rightarrow> SourceFile \<Rightarrow> string \<Rightarrow> int \<Rightarrow> nat \<Rightarrow> int \<Rightarrow> (error + QueryResolution) option" where
  "matchLoop re sf regex matchIndex lastIndex index =
     (case regExpExec re (getFullText sf) lastIndex of
        (None, lastIndex') \<Rightarrow> Some (Inl (Error (noMatchMessage regex matchIndex (fileName sf))))
      | (Some (pos, matched), lastIndex') \<Rightarrow>
          if index = matchIndex then
            Some (Inr \<lparr>res_position = pos,
                       res_line = int (fst (getLineAndCharacterOfPosition sf pos)) + 1,
                       res_column = int (snd (getLineAndCharacterOfPosition sf pos)) + 1,
                       res_matchedText = matched\<rparr>)
          else if \<not> global re then
            Some (Inl (Error (noMatchMessage regex matchIndex (fileName sf))))
          else matchLoop re sf regex matchIndex lastIndex' (index + 1))"

declare matchLoop.simps [code]

definition resolvePosition ::
  "regexp_compiler \<Rightarrow> SourceFile \<Rightarrow> TypeQuery \<Rightarrow> (error + QueryResolution) option" where
  "resolvePosition compile sf query =
     (case query of
        RegexQuery f pr regex regexFlags matchIndexOpt \<Rightarrow>
          (let matchIndex = (case matchIndexOpt of None \<Rightarrow> 0 | Some k \<Rightarrow> k);
               fl = includeGlobalFlag (case regexFlags of None \<Rightarrow> [] | Some g \<Rightarrow> g)
           in case newRegExp compile regex fl of
                Inl err \<Rightarrow> Some (Inl err)
              | Inr re \<Rightarrow> matchLoop re sf regex matchIndex 0 0)
      | PositionQuery f pr l c \<Rightarrow>
          if l \<le> 0 \<or> c \<le> 0 then Some (Inl (Error positionMessage))
          else (case getPositionOfLineAndCharacter sf (l - 1) (c - 1) of
                  Inl err \<Rightarrow> Some (Inl err)
                | Inr pos \<Rightarrow>
                    Some (Inr \<lparr>res_position = pos, res_line = l, res_column = c,
                               res_matchedText = []\<rparr>)))"

text \<open>
  A position query within the bounds of the file: the one-based line is one of the file's
  lines, and the one-based column names an offset of that line, before the start of the next
  line or, on the last line, at most the end of the text.
\<close>

definition withinBounds :: "SourceFile \<Rightarrow> int \<Rightarrow> int \<Rightarrow> bool" where
  "withinBounds sf l c =
     (1 \<le> l \<and> l \<le> int (length (getLineStarts sf)) \<and> 1 \<le> c
      \<and> (if nat l < length (getLineStarts sf)
         then getLineStarts sf ! nat (l - 1) + nat (c - 1) < getLineStarts sf ! nat l
         else getLineStarts sf ! nat (l - 1) + nat (c - 1) \<le> length (getFullText sf)))"

text \<open>
  The matches of a pattern in a text as a left-to-right scan from offset 0 finds them, none
  overlapping another: at each index not inside the previous match, a match that starts
  there is recorded with its end, and the scan resumes at its end (one further when the
  match is empty, so that every occurrence is found once).
\<close>

fun scanMatches :: "matcher \<Rightarrow> js_string \<Rightarrow> nat \<Rightarrow> nat list \<Rightarrow> (nat \<times> nat) list" where
  "scanMatches m text resume [] = []"
| "scanMatches m text resume (i # rest) =
     (if i < resume then scanMatches m text resume rest
      else (case m text i of
              None \<Rightarrow> scanMatches m text resume rest
            | Some e \<Rightarrow> (i, e) # scanMatches m text (if i < e then e else Suc i) rest))"

definition allMatches :: "matcher \<Rightarrow> js_string \<Rightarrow> (nat \<times> nat) list" where
  "allMatches m text = scanMatches m text 0 [0 ..< Suc (length text)]"

text \<open>
  The resolution the resolver builds for a match from \<open>i\<close> to \<open>e\<close>: its offset, the one-based
  line and column of the offset, and the matched substring. \<open>selectMatch\<close> is the outcome of
  selecting the match of index \<open>k\<close> from a list of matches: its resolution, or the error of the
  loop when the list is too short.
\<close>

definition matchResolution :: "SourceFile \<Rightarrow> nat \<times> nat \<Rightarrow> QueryResolution" where
  "matchResolution sf ie =
     \<lparr>res_position = fst ie,
      res_line = int (fst (getLineAndCharacterOfPosition sf (fst ie))) + 1,
      res_column = int (snd (getLineAndCharacterOfPosition sf (fst ie))) + 1,
      res_matchedText = slice (getFullText sf) (fst ie) (snd ie)\<rparr>"

definition selectMatch ::
  "SourceFile \<Rightarrow> string \<Rightarrow> int \<Rightarrow> (nat \<times> nat) list \<Rightarrow> nat \<Rightarrow> error + QueryResolution" where
  "selectMatch sf regex matchIndex ms k =
     (if k < length ms then Inr (matchResolution sf (ms ! k))
      else Inl (Error (noMatchMessage regex matchIndex (fileName sf))))"

text \<open>
  Two patterns and a file to run them on. \<open>starMatcher c\<close> is the matcher of the pattern
  \<^verbatim>\<open>c*\<close>: at every index it matches the longest run of \<open>c\<close>, which may be empty.
  \<open>literalMatcher w\<close> is the matcher of a pattern without metacharacters: it matches where
  the text continues with \<open>w\<close>. \<open>starCompiler\<close> is the pattern compiler restricted to the
  pattern \<^verbatim>\<open>a*\<close>, \<open>literalCompiler\<close> the one restricted to patterns without metacharacters;
  both accept every flag string. The file is the text \<^verbatim>\<open>ab\<close> followed by a line break and
  \<^verbatim>\<open>cab\<close>.
\<close>

definition starMatcher :: "code_unit \<Rightarrow> matcher" where
  "starMatcher c text i =
     (if i \<le> length text then Some (i + length (takeWhile (\<lambda>x. x = c) (drop i text))) else None)"

definition literalMatcher :: "js_string \<Rightarrow> matcher" where
  "literalMatcher w text i =
     (if take (length w) (drop i text) = w then Some (i + length w) else None)"

definition starCompiler :: regexp_compiler where
  "starCompiler pattern fl = Some (starMatcher 0x61)"

definition literalCompiler :: regexp_compiler where
  "literalCompiler pattern fl = Some (literalMatcher (map of_char pattern))"

definition file3 :: SourceFile where
  "file3 = \<lparr>fileName = ''three.ts'', getFullText = [0x61, 0x62, 0x0A, 0x63, 0x61, 0x62],
            getLineStarts = [0, 3],
            rootNode = Node ''SourceFile'' 0 0 6
              [Node ''ExpressionStatement'' 0 0 2 [Node ''Identifier'' 0 0 2 []],
               Node ''ExpressionStatement'' 2 3 6 [Node ''Identifier'' 2 3 6 []],
               Node ''EndOfFileToken'' 6 6 6 []]\<rparr>"

section \<open>The type-system oracle\<close>

text \<open>
  The objects the compiler hands out, as far as the program reads them. A declaration is a
  node together with its source file; a symbol has a name, flags and, possibly, declarations;
  a type has an identity, flags, possibly a symbol, and the member types when it is a union.
\<close>

datatype Declaration = Declaration (declSourceFile: SourceFile) (declNode: node)

datatype Symbol = Symbol (getName: string) (getFlags: "32 word")
  (getDeclarations: "Declaration list option")

datatype TsType = TsType (typeId: nat) (getTypeFlags: "32 word") (getSymbol: "Symbol option")
  (unionTypes: "TsType list option")

datatype Signature = Signature nat

record Diagnostic =
  diagCategory :: DiagnosticCategory
  messageText :: string
  diagSourceFile :: "SourceFile option"
  diagStart :: "nat option"

text \<open>
  The queries of \<^verbatim>\<open>ts.TypeChecker\<close> the program calls; \<^verbatim>\<open>typeToString\<close> takes the format
  flags when the caller passes them. \<^verbatim>\<open>getTypeAtLocation\<close> is the first query \<^verbatim>\<open>pickType\<close>
  makes on the located node, and the checker may throw there for a node it cannot type (the
  root of a file, which the locator returns for an offset in leading trivia); \<^verbatim>\<open>pickType\<close>
  catches nothing, so the exception ends the query.
\<close>

record TypeChecker =
  getTypeAtLocation :: "node \<Rightarrow> error + TsType"
  getSymbolAtLocation :: "node \<Rightarrow> Symbol option"
  getSignaturesOfType :: "TsType \<Rightarrow> SignatureKind \<Rightarrow> Signature list"
  signatureToString :: "Signature \<Rightarrow> node \<Rightarrow> string"
  getNonNullableType :: "TsType \<Rightarrow> TsType"
  getApparentType :: "TsType \<Rightarrow> TsType"
  getPropertiesOfType :: "TsType \<Rightarrow> Symbol list"
  getTypeOfSymbolAtLocation :: "Symbol \<Rightarrow> node \<Rightarrow> TsType"
  typeToString :: "TsType \<Rightarrow> node \<Rightarrow> 32 word option \<Rightarrow> string"
  symbolToString :: "Symbol \<Rightarrow> node \<Rightarrow> 32 word \<Rightarrow> string"

record Program =
  getSourceFiles :: "SourceFile list"
  getTypeChecker :: TypeChecker
  getPreEmitDiagnostics :: "SourceFile \<Rightarrow> Diagnostic list"

record ProgramContext =
  program :: Program
  getCanonicalFileName :: "string \<Rightarrow> string"
  configPath :: "string option"

text \<open>
  What \<^verbatim>\<open>pickType\<close> uses of its surroundings: the path and file-system functions of the
  runtime, the loading of the project (\<^verbatim>\<open>createProgramForFile\<close>, which throws or yields a
  program), the pattern compiler, and the two flag enumerations of the compiler.
\<close>

record Env =
  path_resolve :: "string \<Rightarrow> string"
  path_normalize :: "string \<Rightarrow> string"
  fs_existsSync :: "string \<Rightarrow> bool"
  createProgramForFile :: "string \<Rightarrow> string option \<Rightarrow> error + ProgramContext"
  compileRegExp :: regexp_compiler
  TypeFlags :: "(string \<times> js_value) list"
  SymbolFlags :: "(string \<times> js_value) list"

text \<open>The constants of the compiler's enumerations that the program names.\<close>

definition TypeFlags_Union :: "32 word" where
  "TypeFlags_Union = 1048576"

definition SymbolFlags_Optional :: "32 word" where
  "SymbolFlags_Optional = 16777216"

definition SymbolFlags_All :: "32 word" where
  "SymbolFlags_All = - 1"

text \<open>
  \<^verbatim>\<open>NoTruncation | UseFullyQualifiedType | WriteArrowStyleSignature | AddUndefined |
  UseAliasDefinedOutsideCurrentScope\<close>.
\<close>

definition pickTypeFormatFlags :: "32 word" where
  "pickTypeFormatFlags = 1 OR 64 OR 256 OR 131072 OR 16384"

section \<open>Fact aggregation\<close>

definition collectTypeFlagNames :: "Env \<Rightarrow> 32 word \<Rightarrow> string list" where
  "collectTypeFlagNames env fl = collectFlagNames (TypeFlags env) fl"

definition collectSymbolFlagNames :: "Env \<Rightarrow> 32 word \<Rightarrow> string list" where
  "collectSymbolFlagNames env fl = collectFlagNames (SymbolFlags env) fl"

definition collectSignatures :: "TsType \<Rightarrow> TypeChecker \<Rightarrow> node \<Rightarrow> nat \<Rightarrow> SignatureInfo list" where
  "collectSignatures ty checker n limit =
     map (\<lambda>sg. \<lparr>sig_kind = Call, signature = signatureToString checker sg n\<rparr>)
         (take limit (getSignaturesOfType checker ty Call))
     @ map (\<lambda>sg. \<lparr>sig_kind = Construct, signature = signatureToString checker sg n\<rparr>)
         (take limit (getSignaturesOfType checker ty Construct))"

text \<open>
  The three maps of \<^verbatim>\<open>collectProperties\<close>. \<^verbatim>\<open>symbolByName\<close> keeps its keys in insertion
  order, which \<^verbatim>\<open>keys()\<close> observes, so it is an association list.
\<close>

record PropertyMaps =
  symbolByName :: "(string \<times> Symbol) list"
  presenceByName :: "string \<rightharpoonup> nat"
  optionalFlagByName :: "string \<rightharpoonup> bool"

text \<open>The body of the inner loop, on the maps and the set \<^verbatim>\<open>seen\<close> of the current member.\<close>

definition propertyStep :: "Symbol \<Rightarrow> PropertyMaps \<times> string set \<Rightarrow> PropertyMaps \<times> string set" where
  "propertyStep prop st =
     (let maps = fst st; seen = snd st; name = getName prop;
          maps = (if map_of (symbolByName maps) name = None
                  then maps\<lparr>symbolByName := symbolByName maps @ [(name, prop)]\<rparr> else maps);
          maps = (if name \<notin> seen
                  then maps\<lparr>presenceByName := (presenceByName maps)
                         (name \<mapsto> (case presenceByName maps name of None \<Rightarrow> 0 | Some k \<Rightarrow> k) + 1)\<rparr>
                  else maps);
          seen = (if name \<notin> seen then insert name seen else seen);
          maps = (if (getFlags prop AND SymbolFlags_Optional) \<noteq> 0
                  then maps\<lparr>optionalFlagByName := (optionalFlagByName maps)(name \<mapsto> True)\<rparr>
                  else if optionalFlagByName maps name = None
                  then maps\<lparr>optionalFlagByName := (optionalFlagByName maps)(name \<mapsto> False)\<rparr>
                  else maps)
      in (maps, seen))"

text \<open>The body of the outer loop: one member type, with a fresh \<^verbatim>\<open>seen\<close>.\<close>

definition memberStep :: "TypeChecker \<Rightarrow> TsType \<Rightarrow> PropertyMaps \<Rightarrow> PropertyMaps" where
  "memberStep checker member maps =
     (let apparent = getApparentType checker member;
          props = getPropertiesOfType checker apparent
      in fst (fold propertyStep props (maps, {})))"

definition memberTypesOf :: "TypeChecker \<Rightarrow> TsType \<Rightarrow> TsType list" where
  "memberTypesOf checker ty =
     (let nonNullable = getNonNullableType checker ty
      in if (getTypeFlags nonNullable AND TypeFlags_Union) \<noteq> 0
         then (case unionTypes nonNullable of None \<Rightarrow> [] | Some ts \<Rightarrow> ts)
         else [nonNullable])"

definition collectProperties :: "TsType \<Rightarrow> TypeChecker \<Rightarrow> node \<Rightarrow> nat \<Rightarrow> PropertyInfo list" where
  "collectProperties ty checker n limit =
     (let memberTypes = memberTypesOf checker ty;
          maps = fold (memberStep checker) memberTypes
                   \<lparr>symbolByName = [], presenceByName = Map.empty, optionalFlagByName = Map.empty\<rparr>;
          names = sort (map fst (symbolByName maps));
          totalMembers = (if length memberTypes > 0 then length memberTypes else 1)
      in map (\<lambda>name.
                let symb = the (map_of (symbolByName maps) name);
                    declaration = (case getDeclarations symb of
                                     None \<Rightarrow> None
                                   | Some ds \<Rightarrow> (case ds of [] \<Rightarrow> None | d # _ \<Rightarrow> Some (declNode d)));
                    anchor = (case declaration of None \<Rightarrow> n | Some d \<Rightarrow> d);
                    propertyType = getTypeOfSymbolAtLocation checker symb anchor;
                    optionalByUnion =
                      ((case presenceByName maps name of None \<Rightarrow> 0 | Some k \<Rightarrow> k) < totalMembers);
                    optionalByFlag =
                      (case optionalFlagByName maps name of None \<Rightarrow> False | Some b \<Rightarrow> b)
                in \<lparr>prop_name = name,
                    prop_type = typeToString checker propertyType anchor None,
                    optional = (optionalByFlag \<or> optionalByUnion)\<rparr>)
             (take limit names))"

definition collectDeclarations :: "Symbol \<Rightarrow> nat \<Rightarrow> (string \<Rightarrow> string) \<Rightarrow> DeclarationInfo list" where
  "collectDeclarations symb limit normalizePath =
     map (\<lambda>d.
            let source = declSourceFile d;
                lc = getLineAndCharacterOfPosition source (getStart (declNode d));
                rawSnippet = slice (getFullText source) (getStart (declNode d)) (getEnd (declNode d))
            in \<lparr>decl_file = normalizePath (fileName source),
                decl_line = fst lc + 1,
                decl_column = snd lc + 1,
                decl_kind = kind (declNode d),
                snippet = condenseSnippet rawSnippet defaultMaxLength\<rparr>)
         (take limit (case getDeclarations symb of None \<Rightarrow> [] | Some ds \<Rightarrow> ds))"

definition collectDiagnostics :: "Program \<Rightarrow> SourceFile \<Rightarrow> (string \<Rightarrow> string) \<Rightarrow> DiagnosticInfo list" where
  "collectDiagnostics prog sf normalizePath =
     map (\<lambda>d.
            (case (diagSourceFile d, diagStart d) of
               (Some diagFile, Some start) \<Rightarrow>
                 \<lparr>category = diagCategory d, message = messageText d,
                  diag_file = Some (normalizePath (fileName diagFile)),
                  diag_line = Some (fst (getLineAndCharacterOfPosition diagFile start) + 1),
                  diag_column = Some (snd (getLineAndCharacterOfPosition diagFile start) + 1)\<rparr>
             | _ \<Rightarrow>
                 \<lparr>category = diagCategory d, message = messageText d,
                  diag_file = None, diag_line = None, diag_column = None\<rparr>))
         (getPreEmitDiagnostics prog sf)"

section \<open>The query operation\<close>

text \<open>
  \<^verbatim>\<open>pickType\<close>. Every \<^verbatim>\<open>throw\<close> on the way is an \<open>Inl\<close>; the outer option is \<open>None\<close> when the
  pattern loop never returns.
\<close>

definition pickType :: "Env \<Rightarrow> TypeQuery \<Rightarrow> (error + TypeInfo) option" where
  "pickType env query =
     (let resolvedFile = path_resolve env (q_file query) in
      if \<not> fs_existsSync env resolvedFile
      then Some (Inl (Error (''File not found: '' @ resolvedFile)))
      else
        (case createProgramForFile env resolvedFile (q_project query) of
           Inl err \<Rightarrow> Some (Inl err)
         | Inr programContext \<Rightarrow>
             (let prog = program programContext;
                  checker = getTypeChecker prog;
                  canonical = getCanonicalFileName programContext resolvedFile
              in case find (\<lambda>sf. getCanonicalFileName programContext (fileName sf) = canonical)
                        (getSourceFiles prog) of
                   None \<Rightarrow> Some (Inl (Error (''Failed to load source file: '' @ resolvedFile)))
                 | Some sourceFile \<Rightarrow>
                     (case resolvePosition (compileRegExp env) sourceFile query of
                        None \<Rightarrow> None
                      | Some (Inl err) \<Rightarrow> Some (Inl err)
                      | Some (Inr resolution) \<Rightarrow>
                          (let n = findClosestNode sourceFile (res_position resolution) in
                           case getTypeAtLocation checker n of
                             Inl err \<Rightarrow> Some (Inl err)
                           | Inr ty \<Rightarrow>
                          (let typeFlagNames = collectTypeFlagNames env (getTypeFlags ty);
                               symb = (case getSymbolAtLocation checker n of
                                        Some s \<Rightarrow> Some s
                                      | None \<Rightarrow> getSymbol ty);
                               sigs = collectSignatures ty checker n 5;
                               props = collectProperties ty checker n 25;
                               decls = (case symb of
                                          Some s \<Rightarrow> collectDeclarations s 10 (path_normalize env)
                                        | None \<Rightarrow> []);
                               diags = collectDiagnostics prog sourceFile (path_normalize env);
                               matched = (if length (res_matchedText resolution) > 0
                                          then res_matchedText resolution
                                          else getText sourceFile n)
                           in Some (Inr
                                \<lparr>info_file = path_normalize env resolvedFile,
                                 project = configPath programContext,
                                 position = \<lparr>line = res_line resolution,
                                             column = res_column resolution,
                                             offset = res_position resolution\<rparr>,
                                 matchedText = matched,
                                 nodeKind = kind n,
                                 typeString = typeToString checker ty n (Some pickTypeFormatFlags),
                                 typeFlags = \<lparr>flags = getTypeFlags ty, names = typeFlagNames\<rparr>,
                                 symbol = (case symb of
                                             Some s \<Rightarrow>
                                               Some \<lparr>sym_name = symbolToString checker s n
                                                                  (SymbolFlags_All OR SymbolFlags_Optional),
                                                     sym_flags = \<lparr>flags = getFlags s,
                                                                  names = collectSymbolFlagNames env (getFlags s)\<rparr>\<rparr>
                                           | None \<Rightarrow> None),
                                 signatures = sigs,
                                 properties = props,
                                 declarations = decls,
                                 diagnostics = diags\<rparr>)))))))"

text \<open>
  The steps of \<^verbatim>\<open>pickType\<close> before the resolver, as a relation: the file exists, the
  project loads into the context \<open>ctx\<close>, and \<open>sf\<close> is the first source file of the program with
  the canonical name of the file. \<open>symbolAt\<close> is the symbol \<^verbatim>\<open>pickType\<close> resolves for a node
  of a given type: the one bound to the node or else the one of the type.
\<close>

definition loaded :: "Env \<Rightarrow> TypeQuery \<Rightarrow> ProgramContext \<Rightarrow> SourceFile \<Rightarrow> bool" where
  "loaded env query ctx sf =
     (fs_existsSync env (path_resolve env (q_file query))
      \<and> createProgramForFile env (path_resolve env (q_file query)) (q_project query) = Inr ctx
      \<and> find (\<lambda>s. getCanonicalFileName ctx (fileName s)
                     = getCanonicalFileName ctx (path_resolve env (q_file query)))
           (getSourceFiles (program ctx)) = Some sf)"

definition symbolAt :: "TypeChecker \<Rightarrow> node \<Rightarrow> TsType \<Rightarrow> Symbol option" where
  "symbolAt checker n ty =
     (case getSymbolAtLocation checker n of
        Some s \<Rightarrow> Some s
      | None \<Rightarrow> getSymbol ty)"

section \<open>An example oracle\<close>

text \<open>
  A program over the files \<^verbatim>\<open>three.ts\<close> and \<^verbatim>\<open>one.ts\<close> in which every node below the root of
  a file has the type \<^verbatim>\<open>{ id: string } | { id: string; email: string }\<close> and no symbol,
  neither at the node nor on the type, and in which the checker throws for the root of a
  file. The properties carry the flag \<^verbatim>\<open>Property\<close> and no optional marker.
\<close>

definition exampleMember1 :: TsType where
  "exampleMember1 = TsType 1 524288 None None"

definition exampleMember2 :: TsType where
  "exampleMember2 = TsType 2 524288 None None"

definition exampleUnion :: TsType where
  "exampleUnion = TsType 0 1048576 None (Some [exampleMember1, exampleMember2])"

definition exampleString :: TsType where
  "exampleString = TsType 3 4 None None"

definition exampleChecker :: TypeChecker where
  "exampleChecker =
     \<lparr>getTypeAtLocation =
        (\<lambda>n. if kind n = ''SourceFile'' then Inl DebugFailure else Inr exampleUnion),
      getSymbolAtLocation = (\<lambda>n. None),
      getSignaturesOfType = (\<lambda>t k. []),
      signatureToString = (\<lambda>sg n. []),
      getNonNullableType = (\<lambda>t. t),
      getApparentType = (\<lambda>t. t),
      getPropertiesOfType =
        (\<lambda>t. if typeId t = 1 then [Symbol ''id'' 4 None]
             else if typeId t = 2 then [Symbol ''id'' 4 None, Symbol ''email'' 4 None]
             else []),
      getTypeOfSymbolAtLocation = (\<lambda>sy n. exampleString),
      typeToString = (\<lambda>t n fl. if typeId t = 3 then ''string'' else ''{ id: string; } | { id: string; email: string; }''),
      symbolToString = (\<lambda>sy n fl. getName sy)\<rparr>"

definition exampleEnv :: Env where
  "exampleEnv =
     \<lparr>path_resolve = (\<lambda>f. f),
      path_normalize = (\<lambda>f. f),
      fs_existsSync = (\<lambda>f. True),
      createProgramForFile =
        (\<lambda>f pr. Inr \<lparr>program = \<lparr>getSourceFiles = [file3, file1], getTypeChecker = exampleChecker,
                                   getPreEmitDiagnostics = (\<lambda>sf. [])\<rparr>,
                       getCanonicalFileName = (\<lambda>f. f),
                       configPath = None\<rparr>),
      compileRegExp = literalCompiler,
      TypeFlags = [(''Any'', JsNumber 1), (''1'', JsString ''Any''),
                   (''Union'', JsNumber 1048576), (''1048576'', JsString ''Union''),
                   (''UnionOrIntersection'', JsNumber 3145728)],
      SymbolFlags = [(''None'', JsNumber 0), (''Property'', JsNumber 4)]\<rparr>"

section \<open>Properties of the output filters\<close>

text \<open>
  C9. Each omission option replaces its own list by the empty list and nothing else: the
  result is the input record with exactly the selected lists emptied, so every other field,
  and every list whose option is off, is the one of the input. In particular omitting the
  properties leaves the diagnostics and the signatures as they were.
\<close>

theorem applyOutputFilters_frame:
  "applyOutputFilters result values =
     result\<lparr>diagnostics := (if omit_diagnostics values then [] else diagnostics result),
            properties := (if omit_properties values then [] else properties result),
            signatures := (if omit_signatures values then [] else signatures result)\<rparr>
   \<and> info_file (applyOutputFilters result values) = info_file result
   \<and> project (applyOutputFilters result values) = project result
   \<and> position (applyOutputFilters result values) = position result
   \<and> matchedText (applyOutputFilters result values) = matchedText result
   \<and> nodeKind (applyOutputFilters result values) = nodeKind result
   \<and> typeString (applyOutputFilters result values) = typeString result
   \<and> typeFlags (applyOutputFilters result values) = typeFlags result
   \<and> symbol (applyOutputFilters result values) = symbol result
   \<and> declarations (applyOutputFilters result values) = declarations result
   \<and> diagnostics (applyOutputFilters result (values\<lparr>omit_diagnostics := False\<rparr>)) = diagnostics result
   \<and> signatures (applyOutputFilters result (values\<lparr>omit_signatures := False\<rparr>)) = signatures result
   \<and> properties (applyOutputFilters result (values\<lparr>omit_properties := False\<rparr>)) = properties result
   \<and> diagnostics (applyOutputFilters result (values\<lparr>omit_diagnostics := True\<rparr>)) = []
   \<and> signatures (applyOutputFilters result (values\<lparr>omit_signatures := True\<rparr>)) = []
   \<and> properties (applyOutputFilters result (values\<lparr>omit_properties := True\<rparr>)) = []"
  by (simp add: applyOutputFilters_def Let_def)

section \<open>Properties of the flag-name resolver\<close>

text \<open>
  A 32-bit value passes \<^verbatim>\<open>isSingleBit\<close> exactly when it is a power of two. The step from
  the bitwise test to the power goes through the natural numbers, by induction on the value:
  an even number shifts right, an odd one is 1.
\<close>

lemma pow2_and_minus1: "((2::32 word) ^ k AND (2 ^ k - 1)) = 0"
proof -
  have "(mask k AND (2::32 word) ^ k) = 0"
    by (simp only: and_exp_eq_0_iff_not_bit bit_mask_iff) simp
  then show ?thesis by (simp add: mask_eq_exp_minus_1 and.commute)
qed

lemma nat_single_bit:
  fixes n :: nat
  shows "0 < n \<Longrightarrow> (n AND (n - 1)) = 0 \<Longrightarrow> \<exists>k. n = 2 ^ k"
proof (induction n rule: less_induct)
  case (less n)
  show ?case
  proof (cases "even n")
    case True
    then obtain m where m: "n = 2 * m" by (elim evenE)
    with less.prems have mpos: "0 < m" by simp
    have "n - 1 = 2 * (m - 1) + 1" using m mpos by simp
    then have "(n AND (n - 1)) = 2 * (m AND (m - 1))"
      using m by (subst and_rec) simp
    with less.prems have "(m AND (m - 1)) = 0" by simp
    moreover have "m < n" using m mpos by simp
    ultimately obtain k where "m = 2 ^ k" using less.IH mpos by blast
    then have "n = 2 ^ Suc k" using m by simp
    then show ?thesis by blast
  next
    case False
    then obtain m where m: "n = 2 * m + 1" by (elim oddE)
    have "(n AND (n - 1)) = 2 * m"
      using m by (subst and_rec) simp
    with less.prems have "m = 0" by simp
    then have "n = 2 ^ 0" using m by simp
    then show ?thesis by blast
  qed
qed

lemma isSingleBit_iff: "isSingleBit v \<longleftrightarrow> (\<exists>k<32. v = 2 ^ k)"
proof
  assume sb: "isSingleBit v"
  then have nz: "v \<noteq> 0" and z: "(v AND (v - 1)) = 0" by (simp_all add: isSingleBit_def)
  have "unat (v AND (v - 1)) = (unat v AND unat (v - 1))" by (simp add: unsigned_and_eq)
  moreover have "unat (v - 1) = unat v - 1" using nz by (simp add: unat_minus_one)
  ultimately have "(unat v AND (unat v - 1)) = 0" using z by simp
  moreover have "0 < unat v" using nz by (simp add: unat_gt_0)
  ultimately obtain k where k: "unat v = 2 ^ k" using nat_single_bit by blast
  have "unat v < 2 ^ 32" using unsigned_less [of v] by simp
  have "k < 32"
  proof (rule ccontr)
    assume "\<not> k < 32"
    then have "(2::nat) ^ 32 \<le> 2 ^ k" by (intro power_increasing) simp_all
    with k \<open>unat v < 2 ^ 32\<close> show False by simp
  qed
  moreover have "v = 2 ^ k" 
  proof -
    have "v = of_nat (unat v)" by simp
    also have "\<dots> = 2 ^ k" by (simp only: k) simp
    finally show ?thesis .
  qed
  ultimately show "\<exists>k<32. v = 2 ^ k" by blast
next
  assume "\<exists>k<32. v = 2 ^ k"
  then obtain k where k: "k < 32" "v = 2 ^ k" by blast
  then have "v \<noteq> 0" by simp
  then show "isSingleBit v" using k pow2_and_minus1 by (simp add: isSingleBit_def)
qed


lemma set_flagNamesLoop:
  "set (flagNamesLoop flagEnum flagBits ns) =
     set ns \<union> {n. \<exists>v. (n, JsNumber v) \<in> set flagEnum \<and> isSingleBit v \<and> (flagBits AND v) \<noteq> 0}"
  by (induction flagEnum flagBits ns rule: flagNamesLoop.induct) (auto simp: set_add_def)

lemma distinct_flagNamesLoop:
  "distinct ns \<Longrightarrow> distinct (flagNamesLoop flagEnum flagBits ns)"
  by (induction flagEnum flagBits ns rule: flagNamesLoop.induct) (auto simp: set_add_def)

lemma flagNamesLoop_zero: "flagNamesLoop flagEnum 0 ns = ns"
  by (induction flagEnum "0 :: 32 word" ns rule: flagNamesLoop.induct) auto

text \<open>
  C3, as the code has it. The result lists, in sorted order and without repetition, exactly
  the names of the entries whose value is a number with a single bit set (\<open>2 ^ k\<close> with
  \<open>k < 32\<close>) and whose bit is set in the bitmask; for the bitmask 0 it is empty. Every name
  of such a constant is listed: nothing merges two names of the same bit.
\<close>

theorem collectFlagNames_exact:
  "set (collectFlagNames flagEnum flagBits) =
     {n. \<exists>k<32. (n, JsNumber (2 ^ k)) \<in> set flagEnum \<and> bit flagBits k}
   \<and> sorted (collectFlagNames flagEnum flagBits)
   \<and> distinct (collectFlagNames flagEnum flagBits)
   \<and> collectFlagNames flagEnum 0 = []"
proof -
  have "set (collectFlagNames flagEnum flagBits) =
          {n. \<exists>v. (n, JsNumber v) \<in> set flagEnum \<and> isSingleBit v \<and> (flagBits AND v) \<noteq> 0}"
    by (simp add: collectFlagNames_def set_flagNamesLoop)
  also have "\<dots> = {n. \<exists>k<32. (n, JsNumber (2 ^ k)) \<in> set flagEnum \<and> bit flagBits k}"
    by (auto simp: isSingleBit_iff and_exp_eq_0_iff_not_bit)
  finally have "set (collectFlagNames flagEnum flagBits) =
     {n. \<exists>k<32. (n, JsNumber (2 ^ k)) \<in> set flagEnum \<and> bit flagBits k}" .
  moreover have "sorted (collectFlagNames flagEnum flagBits)"
    by (simp add: collectFlagNames_def)
  moreover have "distinct (collectFlagNames flagEnum flagBits)"
    by (simp add: collectFlagNames_def distinct_flagNamesLoop)
  moreover have "collectFlagNames flagEnum 0 = []"
    by (simp add: collectFlagNames_def flagNamesLoop_zero)
  ultimately show ?thesis by blast
qed

text \<open>
  C3 as stated fails where the enumeration names a bit twice, as the compiler's type flags do
  (\<^verbatim>\<open>IncludesMissingType = TypeParameter\<close>): both names come back for the one bit.
\<close>

theorem collectFlagNames_alias_counterexample:
  "collectFlagNames
     [(''TypeParameter'', JsNumber 262144), (''IncludesMissingType'', JsNumber 262144)] 262144
   = [''IncludesMissingType'', ''TypeParameter'']"
  by (simp add: collectFlagNames_def isSingleBit_def set_add_def)

section \<open>Properties of the declaration snippets\<close>

text \<open>
  Collapsing and trimming keep the visible code units, in their order, and leave no white
  space but spaces; a snippet with nothing to collapse or trim is a fixed point.
\<close>

lemma isWhiteSpace_space: "isWhiteSpace 0x20"
  by (simp add: isWhiteSpace_def)

lemma filter_dropWhile_not: "filter (\<lambda>c. \<not> P c) (dropWhile P xs) = filter (\<lambda>c. \<not> P c) xs"
  by (induction xs) auto

lemma filter_collapseWhitespace:
  "filter (\<lambda>c. \<not> isWhiteSpace c) (collapseWhitespace s) = filter (\<lambda>c. \<not> isWhiteSpace c) s"
  by (induction s rule: collapseWhitespace.induct)
    (auto simp: isWhiteSpace_space filter_dropWhile_not)

lemma filter_trim: "filter (\<lambda>c. \<not> isWhiteSpace c) (trim s) = filter (\<lambda>c. \<not> isWhiteSpace c) s"
proof -
  have "filter (\<lambda>c. \<not> isWhiteSpace c) (trim s)
          = rev (filter (\<lambda>c. \<not> isWhiteSpace c) (dropWhile isWhiteSpace (rev (dropWhile isWhiteSpace s))))"
    by (simp add: trim_def rev_filter)
  also have "\<dots> = rev (filter (\<lambda>c. \<not> isWhiteSpace c) (rev (dropWhile isWhiteSpace s)))"
    by (simp only: filter_dropWhile_not)
  also have "\<dots> = filter (\<lambda>c. \<not> isWhiteSpace c) (dropWhile isWhiteSpace s)"
    by (simp add: rev_filter [symmetric])
  finally show ?thesis by (simp only: filter_dropWhile_not)
qed

lemma collapseWhitespace_spaces:
  "c \<in> set (collapseWhitespace s) \<Longrightarrow> isWhiteSpace c \<Longrightarrow> c = 0x20"
  by (induction s rule: collapseWhitespace.induct) (auto split: if_splits)

lemma set_trim: "c \<in> set (trim s) \<Longrightarrow> c \<in> set s"
  by (auto simp: trim_def dest!: set_dropWhileD)

lemma collapseWhitespace_wellSpaced: "wellSpaced s \<Longrightarrow> collapseWhitespace s = s"
  by (induction s rule: wellSpaced.induct) (auto split: if_splits)

lemma wellSpaced_last: "wellSpaced s \<Longrightarrow> s \<noteq> [] \<Longrightarrow> \<not> isWhiteSpace (last s)"
  by (induction s rule: wellSpaced.induct) (auto split: if_splits)

lemma trim_singleLined: "singleLined s \<Longrightarrow> trim s = s"
proof (cases s)
  case Nil
  then show ?thesis by (simp add: trim_def)
next
  case (Cons c cs)
  assume sl: "singleLined s"
  with Cons have "\<not> isWhiteSpace c" by (simp add: singleLined_def)
  with Cons have d: "dropWhile isWhiteSpace s = s" by simp
  from sl Cons have "\<not> isWhiteSpace (last s)" by (intro wellSpaced_last) (simp_all add: singleLined_def)
  then have "\<not> isWhiteSpace (hd (rev s))" by (simp add: hd_rev)
  moreover have "rev s \<noteq> []" using Cons by simp
  ultimately have "dropWhile isWhiteSpace (rev s) = rev s" by (cases "rev s") auto
  with d show ?thesis by (simp add: trim_def)
qed


text \<open>
  The single line is single-lined: after collapsing, a white-space code unit is a space and
  no white-space code unit follows it, and trimming removes the space at either end.
\<close>

lemma wellSpaced_tail: "wellSpaced (a # t) \<Longrightarrow> t \<noteq> [] \<Longrightarrow> wellSpaced t"
  by (cases t) auto

lemma wellSpaced_Cons:
  "t \<noteq> [] \<Longrightarrow> wellSpaced (a # t) \<longleftrightarrow>
     (isWhiteSpace a \<longrightarrow> a = 0x20 \<and> \<not> isWhiteSpace (hd t)) \<and> wellSpaced t"
  by (cases t) auto

lemma collapseWhitespace_hd:
  "s \<noteq> [] \<Longrightarrow> \<not> isWhiteSpace (hd s) \<Longrightarrow>
     collapseWhitespace s \<noteq> [] \<and> hd (collapseWhitespace s) = hd s"
  by (cases s) auto

lemma collapseWhitespace_merged:
  "\<not> isWhiteSpace v \<Longrightarrow> wellSpaced (collapseWhitespace s @ [v])"
proof (induction s rule: collapseWhitespace.induct)
  case 1
  then show ?case by simp
next
  case (2 c cs)
  show ?case
  proof (cases "isWhiteSpace c")
    case True
    let ?rest = "dropWhile isWhiteSpace cs"
    have IH: "wellSpaced (collapseWhitespace ?rest @ [v])" using 2 True by simp
    have "\<not> isWhiteSpace (hd (collapseWhitespace ?rest @ [v]))"
    proof (cases "?rest = []")
      case True
      then have "collapseWhitespace ?rest @ [v] = [v]" by (simp only: True) simp
      with "2.prems" show ?thesis by simp
    next
      case False
      then have "\<not> isWhiteSpace (hd ?rest)" by (rule hd_dropWhile)
      with False have "collapseWhitespace ?rest \<noteq> [] \<and> hd (collapseWhitespace ?rest) = hd ?rest"
        by (intro collapseWhitespace_hd)
      with \<open>\<not> isWhiteSpace (hd ?rest)\<close> show ?thesis by simp
    qed
    with IH True show ?thesis by (simp add: wellSpaced_Cons)
  next
    case False
    with 2 have "wellSpaced (collapseWhitespace cs @ [v])" by simp
    with False show ?thesis by (simp add: wellSpaced_Cons)
  qed
qed

lemma wellSpaced_dropWhile:
  "wellSpaced (xs @ [v]) \<Longrightarrow> wellSpaced (dropWhile isWhiteSpace xs @ [v])"
proof (induction xs)
  case Nil
  then show ?case by simp
next
  case (Cons x xs)
  then have "wellSpaced (xs @ [v])" using wellSpaced_tail [of x "xs @ [v]"] by simp
  with Cons show ?case by simp
qed

lemma dropTrailing_Cons:
  "rev (dropWhile P (rev (x # xs))) =
     (if rev (dropWhile P (rev xs)) = [] then (if P x then [] else [x])
      else x # rev (dropWhile P (rev xs)))"
  by (auto simp: dropWhile_append dropWhile_eq_Nil_conv)

lemma dropTrailing_hd:
  "rev (dropWhile P (rev xs)) \<noteq> [] \<Longrightarrow> hd (rev (dropWhile P (rev xs))) = hd xs \<and> xs \<noteq> []"
  by (cases xs) (auto simp: dropTrailing_Cons simp del: rev.simps split: if_splits)

lemma wellSpaced_dropTrailing:
  "wellSpaced (xs @ [v]) \<Longrightarrow> wellSpaced (rev (dropWhile isWhiteSpace (rev xs)))"
proof (induction xs)
  case Nil
  then show ?case by simp
next
  case (Cons x xs)
  let ?t = "rev (dropWhile isWhiteSpace (rev xs))"
  from Cons.prems have whole: "wellSpaced (x # (xs @ [v]))" by simp
  then have "wellSpaced (xs @ [v])" using wellSpaced_tail [of x "xs @ [v]"] by simp
  then have IH: "wellSpaced ?t" by (rule Cons.IH)
  show ?case
  proof (cases "?t = []")
    case True
    then show ?thesis by (simp only: dropTrailing_Cons) simp
  next
    case False
    then have h: "hd ?t = hd xs" and ne: "xs \<noteq> []" using dropTrailing_hd [of isWhiteSpace xs] by simp_all
    from whole ne have "isWhiteSpace x \<longrightarrow> x = 0x20 \<and> \<not> isWhiteSpace (hd xs)"
      by (simp add: wellSpaced_Cons)
    with IH False h have "wellSpaced (x # ?t)" by (simp add: wellSpaced_Cons)
    with False show ?thesis by (simp only: dropTrailing_Cons) simp
  qed
qed

lemma singleLined_trim_collapseWhitespace: "singleLined (trim (collapseWhitespace s))"
proof -
  let ?c = "collapseWhitespace s"
  let ?d = "dropWhile isWhiteSpace ?c"
  have vis: "\<not> isWhiteSpace 0x61" by (simp add: isWhiteSpace_def)
  have "wellSpaced (?c @ [0x61])" using vis by (rule collapseWhitespace_merged)
  then have "wellSpaced (?d @ [0x61])" by (rule wellSpaced_dropWhile)
  then have w: "wellSpaced (trim ?c)" unfolding trim_def by (rule wellSpaced_dropTrailing)
  have "\<not> isWhiteSpace (hd (trim ?c))" if "trim ?c \<noteq> []"
  proof -
    from that have "hd (trim ?c) = hd ?d" and "?d \<noteq> []"
      using dropTrailing_hd [of isWhiteSpace ?d] by (simp_all add: trim_def)
    then show ?thesis using hd_dropWhile [of isWhiteSpace ?c] by simp
  qed
  with w show ?thesis by (cases "trim ?c") (simp_all add: singleLined_def)
qed

text \<open>
  What \<^verbatim>\<open>condenseSnippet\<close> returns. A single line of at most 160 code units is returned as
  it is; a longer one is cut to its first 160 code units, followed by the three code units
  of the marker, 163 in all. The single line is single-lined, it has the visible code units
  of the snippet, and it is the snippet itself when the snippet is single-lined.
\<close>

lemma condenseSnippet_cases:
  "(length (trim (collapseWhitespace s)) \<le> defaultMaxLength \<longrightarrow>
      condenseSnippet s defaultMaxLength = trim (collapseWhitespace s))
   \<and> (defaultMaxLength < length (trim (collapseWhitespace s)) \<longrightarrow>
        condenseSnippet s defaultMaxLength
          = take 160 (trim (collapseWhitespace s)) @ [0xE2, 0x20AC, 0xA6]
        \<and> length (condenseSnippet s defaultMaxLength) = 163)
   \<and> filter (\<lambda>c. \<not> isWhiteSpace c) (trim (collapseWhitespace s)) = filter (\<lambda>c. \<not> isWhiteSpace c) s
   \<and> singleLined (trim (collapseWhitespace s))
   \<and> (singleLined s \<longrightarrow> trim (collapseWhitespace s) = s)"
proof (intro conjI impI)
  show "condenseSnippet s defaultMaxLength = trim (collapseWhitespace s)"
    if "length (trim (collapseWhitespace s)) \<le> defaultMaxLength"
    using that by (simp add: condenseSnippet_def)
  show "condenseSnippet s defaultMaxLength
          = take 160 (trim (collapseWhitespace s)) @ [0xE2, 0x20AC, 0xA6]"
    if "defaultMaxLength < length (trim (collapseWhitespace s))"
    using that by (simp add: condenseSnippet_def defaultMaxLength_def truncationMarker_def)
  show "length (condenseSnippet s defaultMaxLength) = 163"
    if "defaultMaxLength < length (trim (collapseWhitespace s))"
    using that by (simp add: condenseSnippet_def defaultMaxLength_def truncationMarker_def)
  show "filter (\<lambda>c. \<not> isWhiteSpace c) (trim (collapseWhitespace s)) = filter (\<lambda>c. \<not> isWhiteSpace c) s"
    by (simp only: filter_trim filter_collapseWhitespace)
  show "singleLined (trim (collapseWhitespace s))" by (rule singleLined_trim_collapseWhitespace)
  show "trim (collapseWhitespace s) = s" if "singleLined s"
    using that by (simp add: collapseWhitespace_wellSpaced trim_singleLined singleLined_def)
qed

text \<open>
  C8 at a snippet of 200 code units \<^verbatim>\<open>b\<close>. The claim has the result end with a single
  ellipsis. The result is the first 160 code units followed by the three code units U+00E2,
  U+20AC and U+00A6 of the mis-encoded literal, 163 code units in all; it is not the 160
  code units followed by the ellipsis U+2026, which does not occur in it.
\<close>

theorem condenseSnippet_marker_units:
  "condenseSnippet (replicate 200 0x62) defaultMaxLength = replicate 160 0x62 @ [0xE2, 0x20AC, 0xA6]
   \<and> length (condenseSnippet (replicate 200 0x62) defaultMaxLength) = 163
   \<and> condenseSnippet (replicate 200 0x62) defaultMaxLength \<noteq> replicate 160 0x62 @ [ellipsis]
   \<and> ellipsis \<notin> set (condenseSnippet (replicate 200 0x62) defaultMaxLength)"
proof -
  have vis: "\<not> isWhiteSpace 0x62" by (simp add: isWhiteSpace_def)
  have ws: "wellSpaced (replicate n 0x62)" for n
  proof (induction n)
    case 0
    then show ?case by simp
  next
    case (Suc n)
    then show ?case by (cases n) (simp_all add: vis)
  qed
  have "singleLined (replicate n 0x62)" for n
    by (cases n) (simp_all add: singleLined_def vis ws [of "Suc m" for m, simplified])
  then have line: "trim (collapseWhitespace (replicate 200 0x62)) = replicate 200 0x62"
    using condenseSnippet_cases [of "replicate 200 0x62"] by blast
  have run: "condenseSnippet (replicate 200 0x62) defaultMaxLength
               = replicate 160 0x62 @ [0xE2, 0x20AC, 0xA6]"
    using condenseSnippet_cases [of "replicate 200 0x62"]
    by (simp only: line) (simp add: defaultMaxLength_def)
  show ?thesis by (simp only: run) (simp add: ellipsis_def)
qed

text \<open>
  The other cases at concrete snippets: a line break and spaces merged into one space, and a
  short single line returned unchanged.
\<close>

lemma condenseSnippet_examples:
  "condenseSnippet [0x61, 0x0A, 0x20, 0x20, 0x62] defaultMaxLength = [0x61, 0x20, 0x62]
   \<and> condenseSnippet [0x61, 0x20, 0x62] defaultMaxLength = [0x61, 0x20, 0x62]"
  by (simp add: condenseSnippet_def trim_def isWhiteSpace_def defaultMaxLength_def)

text \<open>
  In the declarations of a symbol every snippet is condensed with the default maximum, so it
  has at most 163 code units, and at most \<open>limit\<close> declarations are listed.
\<close>

lemma condenseSnippet_length: "length (condenseSnippet s n) \<le> n + 3"
  by (simp add: condenseSnippet_def Let_def truncationMarker_def)

lemma collectDeclarations_bounds:
  "length (collectDeclarations symb limit normalizePath) \<le> limit
   \<and> (\<forall>d \<in> set (collectDeclarations symb limit normalizePath). length (snippet d) \<le> 163)"
proof -
  have "length (condenseSnippet s defaultMaxLength) \<le> 163" for s
    using condenseSnippet_length [of s defaultMaxLength] by (simp add: defaultMaxLength_def)
  then show ?thesis by (auto simp: collectDeclarations_def Let_def)
qed

section \<open>Properties of the node locator\<close>

text \<open>
  The traversal with its assigned variable is the last element of the pre-order list of
  candidates, after the node it started with.
\<close>

lemma fold_visit:
  assumes "\<And>c b. c \<in> set cs \<Longrightarrow> visit p c b = last (b # candidates p c)"
  shows "fold (visit p) cs b = last (b # concat (map (candidates p) cs))"
  using assms
proof (induction cs arbitrary: b)
  case Nil
  then show ?case by simp
next
  case (Cons c cs)
  have "fold (visit p) (c # cs) b = fold (visit p) cs (last (b # candidates p c))"
    using Cons.prems by simp
  also have "\<dots> = last (last (b # candidates p c) # concat (map (candidates p) cs))"
    using Cons.prems by (intro Cons.IH) simp
  also have "\<dots> = last (b # concat (map (candidates p) (c # cs)))"
    by (simp add: last_append)
  finally show ?case .
qed

lemma visit_candidates: "visit p n b = last (b # candidates p n)"
proof (induction p n b rule: visit.induct)
  case (1 p k fs s e cs bestNode)
  show ?case
  proof (cases "p < fs \<or> p > e")
    case True
    then show ?thesis by auto
  next
    case False
    then have "fold (visit p) cs b = last (b # concat (map (candidates p) cs))" for b
      using "1.IH" by (intro fold_visit) auto
    with False show ?thesis by (auto simp: last_append)
  qed
qed

lemma subseq_concat_map:
  "(\<And>x. x \<in> set xs \<Longrightarrow> subseq (f x) (g x)) \<Longrightarrow> subseq (concat (map f xs)) (concat (map g xs))"
  by (induction xs) (auto intro: list_emb_append_mono)

lemma subseq_candidates: "subseq (candidates p n) (nodesOf n)"
proof (induction n)
  case (Node k fs s e cs)
  then have "subseq (concat (map (candidates p) cs)) (concat (map nodesOf cs))"
    by (intro subseq_concat_map)
  then show ?case by auto
qed

lemma candidates_spans: "n \<in> set (candidates p r) \<Longrightarrow> inTokenSpan p n \<and> inFullSpan p n"
  by (induction p r rule: candidates.induct)
    (auto simp: inTokenSpan_def inFullSpan_def split: if_splits)

lemma candidates_empty: "candidates p c = [] \<Longrightarrow> \<not> (inFullSpan p c \<and> inTokenSpan p c)"
  by (cases c) (auto simp: inTokenSpan_def inFullSpan_def split: if_splits)

lemma last_concat:
  "concat xss \<noteq> [] \<Longrightarrow> \<exists>xs \<in> set xss. xs \<noteq> [] \<and> last (concat xss) = last xs"
  by (induction xss rule: rev_induct) (auto simp: last_append)

lemma last_candidate_children:
  "candidates p n \<noteq> [] \<Longrightarrow> c \<in> set (childNodes (last (candidates p n)))
     \<Longrightarrow> \<not> (inFullSpan p c \<and> inTokenSpan p c)"
proof (induction n)
  case (Node k fs s e cs)
  let ?L = "concat (map (candidates p) cs)"
  from Node.prems(1) have inside: "fs \<le> p \<and> p \<le> e" by (auto split: if_splits)
  show ?case
  proof (cases "?L = []")
    case True
    with Node.prems(1) inside have "last (candidates p (Node k fs s e cs)) = Node k fs s e cs"
      by (auto split: if_splits)
    with Node.prems(2) have "c \<in> set cs" by simp
    with True have "candidates p c = []" by auto
    then show ?thesis by (rule candidates_empty)
  next
    case False
    then obtain xs where xs: "xs \<in> set (map (candidates p) cs)" "xs \<noteq> []" "last ?L = last xs"
      using last_concat by blast
    then obtain c' where c': "c' \<in> set cs" "xs = candidates p c'" by auto
    from False inside have "last (candidates p (Node k fs s e cs)) = last ?L"
      by (auto simp: last_append)
    with xs c' Node.prems(2) have "c \<in> set (childNodes (last (candidates p c')))" by simp
    with Node.IH [OF c'(1)] xs(2) c'(2) show ?thesis by blast
  qed
qed

text \<open>
  C5, as the code has it. The locator is a total function: it returns a node of the tree,
  namely the last node in depth-first pre-order among the candidates, which are the nodes
  whose token span (leading trivia excluded, end included) contains the offset and that are
  reached from the root through nodes whose full span contains it; without a candidate it
  returns the root. For an offset in the root's full span, no child of the result contains
  the offset in its token span.
\<close>

theorem findClosestNode_last_candidate:
  "findClosestNode sf p = last (rootNode sf # candidates p (rootNode sf))
   \<and> subseq (candidates p (rootNode sf)) (nodesOf (rootNode sf))
   \<and> (\<forall>n \<in> set (candidates p (rootNode sf)). inTokenSpan p n \<and> inFullSpan p n)
   \<and> findClosestNode sf p \<in> set (nodesOf (rootNode sf))
   \<and> (inFullSpan p (rootNode sf) \<longrightarrow>
        (\<forall>c \<in> set (childNodes (findClosestNode sf p)). \<not> (inFullSpan p c \<and> inTokenSpan p c)))"
proof (intro conjI impI ballI)
  let ?r = "rootNode sf"
  show eq: "findClosestNode sf p = last (?r # candidates p ?r)"
    by (simp add: findClosestNode_def visit_candidates)
  show "subseq (candidates p ?r) (nodesOf ?r)" by (rule subseq_candidates)
  show "inTokenSpan p n" if "n \<in> set (candidates p ?r)" for n
    using that candidates_spans by blast
  show "inFullSpan p n" if "n \<in> set (candidates p ?r)" for n
    using that candidates_spans by blast
  have root_in: "?r \<in> set (nodesOf ?r)" by (cases ?r) simp
  show "findClosestNode sf p \<in> set (nodesOf ?r)"
  proof (cases "candidates p ?r = []")
    case True
    with eq root_in show ?thesis by simp
  next
    case False
    then have "last (candidates p ?r) \<in> set (candidates p ?r)" by simp
    then have "last (candidates p ?r) \<in> set (nodesOf ?r)"
      using list_emb_set [OF subseq_candidates [of p ?r]] by blast
    with eq False show ?thesis by simp
  qed
  show "\<not> (inFullSpan p c \<and> inTokenSpan p c)"
    if full: "inFullSpan p ?r" and c: "c \<in> set (childNodes (findClosestNode sf p))" for c
  proof (cases "candidates p ?r = []")
    case True
    with eq c have cr: "c \<in> set (childNodes ?r)" by simp
    obtain k fs s e cs where r: "?r = Node k fs s e cs" by (cases ?r)
    with True full have "concat (map (candidates p) cs) = []"
      by (auto simp: inFullSpan_def split: if_splits)
    with cr r have "candidates p c = []" by auto
    then show ?thesis by (rule candidates_empty)
  next
    case False
    with eq c have "c \<in> set (childNodes (last (candidates p ?r)))" by simp
    with False show ?thesis by (rule last_candidate_children)
  qed
qed


text \<open>
  C5 as stated fails twice. In \<^verbatim>\<open>  x;\<close> at offset 1 the identifier, at depth 2, contains
  the offset in its span with the leading trivia, and the locator returns the root. In
  \<^verbatim>\<open>a.b+c\<close> at offset 3 the identifier \<^verbatim>\<open>b\<close>, at depth 4, contains the offset, and the
  locator returns the later sibling \<^verbatim>\<open>+\<close> of its parent, at depth 3.
\<close>

theorem findClosestNode_deepest_counterexample:
  "findClosestNode file1 1 = rootNode file1
   \<and> (2, tree1_x) \<in> set (depthsOf 0 (rootNode file1)) \<and> inFullSpan 1 tree1_x
   \<and> findClosestNode file2 3 = tree2_plus
   \<and> (3, tree2_plus) \<in> set (depthsOf 0 (rootNode file2))
   \<and> (4, tree2_b) \<in> set (depthsOf 0 (rootNode file2))
   \<and> inFullSpan 3 tree2_b \<and> inTokenSpan 3 tree2_b"
  by (simp add: findClosestNode_def file1_def file2_def tree1_x_def tree1_statement_def tree2_b_def
      tree2_plus_def tree2_access_def tree2_binary_def inFullSpan_def inTokenSpan_def)

text \<open>The locator in \<^verbatim>\<open>a.b+c\<close> at offset 2: the candidates and the result, a leaf.\<close>

theorem findClosestNode_last_candidate_witness:
  "inFullSpan 2 (rootNode file2) \<and> findClosestNode file2 2 = tree2_b
   \<and> childNodes (findClosestNode file2 2) = []
   \<and> candidates 2 (rootNode file2) = [rootNode file2, Node ''ExpressionStatement'' 0 0 5 [tree2_binary], tree2_binary, tree2_access, tree2_b]"
  using findClosestNode_last_candidate [of file2 2]
  by (simp add: file2_def tree2_b_def
      tree2_plus_def tree2_access_def tree2_binary_def inFullSpan_def inTokenSpan_def)

section \<open>Properties of the query resolver\<close>

text \<open>
  In a strictly increasing table of line starts, an offset between the start of a line and
  the start of the next lies on that line.
\<close>

lemma computeLineOfPosition_eq:
  assumes "sorted_wrt (<) ls" and "i < length ls" and "ls ! i \<le> p"
    and "Suc i < length ls \<Longrightarrow> p < ls ! Suc i"
  shows "computeLineOfPosition ls p = i"
proof -
  have below: "ls ! j \<le> p" if "j < Suc i" for j
  proof (cases "j = i")
    case True
    with assms(3) show ?thesis by simp
  next
    case False
    with that have "j < i" by simp
    with assms(1,2) have "ls ! j < ls ! i" by (simp add: sorted_wrt_nth_less)
    with assms(3) show ?thesis by simp
  qed
  have "takeWhile (\<lambda>s. s \<le> p) ls = take (Suc i) ls"
  proof (rule takeWhile_eq_take_P_nth)
    show "ls ! j \<le> p" if "j < Suc i" "j < length ls" for j using that below by blast
    show "\<not> ls ! Suc i \<le> p" if "Suc i < length ls" using assms(4) [OF that] by simp
  qed
  then show ?thesis using assms(2) by (simp add: computeLineOfPosition_def)
qed

text \<open>
  C6. For a position query within the bounds of a file whose line starts increase strictly,
  the resolver succeeds with the offset \<^verbatim>\<open>lineStarts[line - 1] + column - 1\<close>, and the
  oracle's mapping from offsets takes that offset back to the zero-based line and character
  of the query, that is, to the original line and column after adding one to each; the
  resolution carries the line and column of the query.
\<close>

theorem resolvePosition_roundtrip:
  assumes "sorted_wrt (<) (getLineStarts sf)" and "withinBounds sf l c"
  shows "\<exists>r. resolvePosition compile sf (PositionQuery f pr l c) = Some (Inr r)
           \<and> res_position r = getLineStarts sf ! nat (l - 1) + nat (c - 1)
           \<and> getLineAndCharacterOfPosition sf (res_position r) = (nat (l - 1), nat (c - 1))
           \<and> int (fst (getLineAndCharacterOfPosition sf (res_position r))) + 1 = res_line r
           \<and> int (snd (getLineAndCharacterOfPosition sf (res_position r))) + 1 = res_column r
           \<and> res_line r = l \<and> res_column r = c"
proof -
  let ?ls = "getLineStarts sf"
  let ?i = "nat (l - 1)"
  let ?p = "?ls ! ?i + nat (c - 1)"
  from assms(2) have l: "1 \<le> l" "l \<le> int (length ?ls)" and c: "1 \<le> c"
    by (simp_all add: withinBounds_def)
  then have i: "?i < length ?ls" and li: "nat l = Suc ?i" by linarith+
  from assms(2) li have inner: "Suc ?i < length ?ls \<Longrightarrow> ?p < ?ls ! Suc ?i"
    and last: "\<not> Suc ?i < length ?ls \<Longrightarrow> ?p \<le> length (getFullText sf)"
    by (simp_all add: withinBounds_def)
  have pos: "getPositionOfLineAndCharacter sf (l - 1) (c - 1) = Inr ?p"
  proof (cases "Suc ?i < length ?ls")
    case True
    with inner have "?p < ?ls ! Suc ?i" by simp
    with True l c i show ?thesis
      by (simp add: getPositionOfLineAndCharacter_def Let_def nat_add_distrib) linarith
  next
    case False
    with last have "?p \<le> length (getFullText sf)" by simp
    with False l c i show ?thesis
      by (simp add: getPositionOfLineAndCharacter_def Let_def nat_add_distrib) linarith
  qed
  have line: "computeLineOfPosition ?ls ?p = ?i"
    using assms(1) i inner by (intro computeLineOfPosition_eq) simp_all
  have inverse: "getLineAndCharacterOfPosition sf ?p = (?i, nat (c - 1))"
    by (simp add: getLineAndCharacterOfPosition_def Let_def line)
  have "resolvePosition compile sf (PositionQuery f pr l c) =
          Some (Inr \<lparr>res_position = ?p, res_line = l, res_column = c, res_matchedText = []\<rparr>)"
    using l c pos by (simp add: resolvePosition_def)
  with inverse l c show ?thesis by simp
qed

text \<open>Line 2, column 3 of the file \<^verbatim>\<open>three.ts\<close> is offset 5, and offset 5 is line 1, character 2.\<close>

theorem resolvePosition_roundtrip_witness:
  "sorted_wrt (<) (getLineStarts file3) \<and> withinBounds file3 2 3
   \<and> resolvePosition literalCompiler file3 (PositionQuery ''three.ts'' None 2 3)
       = Some (Inr \<lparr>res_position = 5, res_line = 2, res_column = 3, res_matchedText = []\<rparr>)
   \<and> getLineAndCharacterOfPosition file3 5 = (1, 2)"
  using resolvePosition_roundtrip [of file3 2 3 literalCompiler "''three.ts''" None]
  by (simp add: file3_def withinBounds_def resolvePosition_def getPositionOfLineAndCharacter_def
      getLineAndCharacterOfPosition_def computeLineOfPosition_def)

text \<open>Every error the pattern loop returns carries the message thrown after the loop.\<close>

lemma matchLoop_error:
  assumes "matchLoop re sf regex k li idx = Some (Inl err)"
  shows "err = Error (noMatchMessage regex k (fileName sf))"
proof -
  have "\<forall>err. y = Inl err \<longrightarrow> err = Error (noMatchMessage regex k (fileName sf))"
    if "matchLoop re sf regex k li idx = Some y" for y
    using that
    by (rule matchLoop.raw_induct [rotated, where P = "\<lambda>re sf regex k li idx y.
          \<forall>err. y = Inl err \<longrightarrow> err = Error (noMatchMessage regex k (fileName sf))"])
      (auto split: prod.splits option.splits if_splits)
  with assms show ?thesis by blast
qed

text \<open>
  C7, as the code has it. A position query with a non-positive line or column fails at once,
  whatever the file, with the fixed message \<^verbatim>\<open>Line and column must be 1-based and positive\<close>.
  A pattern query that fails with an error of the resolver's own fails with the message of
  the loop, which includes the pattern, the requested index (0 when none was given) and the
  name of the file.
\<close>

theorem resolvePosition_error_messages:
  "(l \<le> 0 \<or> c \<le> 0 \<longrightarrow>
      resolvePosition compile sf (PositionQuery f pr l c) = Some (Inl (Error positionMessage)))
   \<and> (resolvePosition compile sf (RegexQuery f pr regex fl k) = Some (Inl (Error msg)) \<longrightarrow>
        msg = noMatchMessage regex (case k of None \<Rightarrow> 0 | Some i \<Rightarrow> i) (fileName sf)
        \<and> sublist regex msg
        \<and> sublist (numberToString (case k of None \<Rightarrow> 0 | Some i \<Rightarrow> i)) msg
        \<and> sublist (fileName sf) msg)"
proof (intro conjI impI)
  show "resolvePosition compile sf (PositionQuery f pr l c) = Some (Inl (Error positionMessage))"
    if "l \<le> 0 \<or> c \<le> 0"
    using that by (auto simp: resolvePosition_def)
  assume failed: "resolvePosition compile sf (RegexQuery f pr regex fl k) = Some (Inl (Error msg))"
  let ?k = "case k of None \<Rightarrow> 0 | Some i \<Rightarrow> i"
  from failed obtain re where
    "matchLoop re sf regex ?k 0 0 = Some (Inl (Error msg))"
    by (auto simp: resolvePosition_def Let_def newRegExp_def split: sum.splits option.splits)
  then have "Error msg = Error (noMatchMessage regex ?k (fileName sf))"
    by (rule matchLoop_error)
  then show m: "msg = noMatchMessage regex ?k (fileName sf)" by simp
  show "sublist regex msg"
    unfolding m noMatchMessage_def by (metis sublist_appendI append.assoc)
  show "sublist (numberToString ?k) msg"
    unfolding m noMatchMessage_def by (metis sublist_appendI append.assoc)
  show "sublist (fileName sf) msg"
    unfolding m noMatchMessage_def by (metis sublist_appendI append.assoc append_Nil2)
qed

text \<open>
  Both failures in the file \<^verbatim>\<open>three.ts\<close>: line -7, and the third match of \<^verbatim>\<open>ab\<close>, which
  occurs twice.
\<close>

theorem resolvePosition_error_messages_witness:
  "resolvePosition literalCompiler file3 (PositionQuery ''three.ts'' None (- 7) 3)
     = Some (Inl (Error positionMessage))
   \<and> resolvePosition literalCompiler file3 (RegexQuery ''three.ts'' None ''ab'' None (Some 2))
     = Some (Inl (Error (noMatchMessage ''ab'' 2 ''three.ts'')))
   \<and> sublist ''ab'' (noMatchMessage ''ab'' 2 ''three.ts'')
   \<and> sublist ''2'' (noMatchMessage ''ab'' 2 ''three.ts'')
   \<and> sublist ''three.ts'' (noMatchMessage ''ab'' 2 ''three.ts'')"
proof -
  have failed: "resolvePosition literalCompiler file3 (RegexQuery ''three.ts'' None ''ab'' None (Some 2))
       = Some (Inl (Error (noMatchMessage ''ab'' 2 ''three.ts'')))"
    by code_simp
  have name: "fileName file3 = ''three.ts''" by (simp add: file3_def)
  have two: "numberToString 2 = ''2''" by code_simp
  show ?thesis
    using resolvePosition_error_messages [where l = "- 7" and c = 3 and compile = literalCompiler
        and sf = file3 and f = "''three.ts''" and pr = None and regex = "''ab''" and fl = None
        and k = "Some 2" and msg = "noMatchMessage ''ab'' 2 ''three.ts''"] failed name two
    by simp
qed

text \<open>
  C7 as stated fails for position queries: the message for line -7 and column 3 is the fixed
  text, which contains neither \<^verbatim>\<open>-7\<close> nor \<^verbatim>\<open>3\<close>.
\<close>

theorem resolvePosition_position_message_counterexample:
  "resolvePosition literalCompiler file3 (PositionQuery ''three.ts'' None (- 7) 3)
     = Some (Inl (Error ''Line and column must be 1-based and positive''))
   \<and> numberToString (- 7) = ''-7'' \<and> numberToString 3 = ''3''
   \<and> \<not> sublist ''-7'' ''Line and column must be 1-based and positive''
   \<and> \<not> sublist ''3'' ''Line and column must be 1-based and positive''"
  by code_simp

text \<open>
  The flags of the pattern always contain \<^verbatim>\<open>g\<close>: it is appended exactly when it is missing.
\<close>

lemma includeGlobalFlag_global:
  "CHR ''g'' \<in> set (includeGlobalFlag fl)
   \<and> (CHR ''g'' \<in> set fl \<longrightarrow> includeGlobalFlag fl = fl)
   \<and> (CHR ''g'' \<notin> set fl \<longrightarrow> includeGlobalFlag fl = fl @ ''g'')"
  by (simp add: includeGlobalFlag_def)

text \<open>
  The pattern loop against the scan. With the global flag and without the sticky flag,
  \<^verbatim>\<open>exec\<close> finds the first match of the scan at or after \<^verbatim>\<open>lastIndex\<close>; when no match of the
  pattern is empty, the loop resumes where the scan does, and the query of index \<open>k\<close> selects
  the match of index \<open>k\<close> of the scan or fails when there are at most \<open>k\<close> matches.
\<close>

lemma firstMatch_Some:
  "firstMatch m text js = Some (i, e) \<Longrightarrow> i \<in> set js \<and> m text i = Some e"
  by (induction js) (auto split: option.splits)

lemma scanMatches_firstMatch_None:
  "firstMatch m text xs = None \<Longrightarrow> scanMatches m text r xs = []"
  by (induction xs) (auto split: option.splits)

lemma scanMatches_skip:
  "\<forall>x \<in> set xs. x < r \<Longrightarrow> scanMatches m text r (xs @ ys) = scanMatches m text r ys"
  by (induction xs) auto

lemma scanMatches_upt_skip:
  assumes "a \<le> r"
  shows "scanMatches m text r [a ..< b] = scanMatches m text r [r ..< b]"
proof (cases "r \<le> b")
  case True
  with assms have "[a ..< b] = [a ..< r] @ [r ..< b]"
    by (metis le_Suc_ex upt_add_eq_append)
  then show ?thesis by (simp add: scanMatches_skip)
next
  case False
  then have "scanMatches m text r ([a ..< b] @ []) = scanMatches m text r []"
    by (intro scanMatches_skip) auto
  with False show ?thesis by simp
qed

lemma scanMatches_firstMatch_Some:
  assumes "firstMatch m text [a ..< b] = Some (i, e)" and "r \<le> a"
  shows "scanMatches m text r [a ..< b]
           = (i, e) # scanMatches m text (if i < e then e else Suc i) [Suc i ..< b]"
  using assms
proof (induction "b - a" arbitrary: a)
  case 0
  then show ?case by simp
next
  case (Suc n)
  then have ab: "a < b" by simp
  then have upt: "[a ..< b] = a # [Suc a ..< b]" by (simp add: upt_conv_Cons)
  show ?case
  proof (cases "m text a")
    case None
    with Suc.prems upt have fm: "firstMatch m text [Suc a ..< b] = Some (i, e)" by simp
    from Suc.hyps(2) have n: "n = b - Suc a" by simp
    from Suc.prems have r: "r \<le> Suc a" by simp
    have "scanMatches m text r [Suc a ..< b]
           = (i, e) # scanMatches m text (if i < e then e else Suc i) [Suc i ..< b]"
      by (rule Suc.hyps(1) [OF n fm r])
    with None Suc.prems(2) show ?thesis by (simp add: upt)
  next
    case (Some e')
    with Suc.prems upt have "i = a" "e = e'" by simp_all
    with Some Suc.prems(2) show ?thesis by (simp add: upt)
  qed
qed

lemma regExpExec_global:
  assumes "global re" and "\<not> sticky re"
  shows "regExpExec re text li =
     (case firstMatch (re_matcher re) text [li ..< Suc (length text)] of
        None \<Rightarrow> (None, 0)
      | Some (i, e) \<Rightarrow> (Some (i, slice text i e), e))"
  using assms by (auto simp: regExpExec_def Let_def split: option.splits)

lemma matchLoop_select:
  assumes g: "global re" and s: "\<not> sticky re"
    and nonempty: "\<And>i e. re_matcher re (getFullText sf) i = Some e \<Longrightarrow> i < e"
  shows "matchLoop re sf regex K li (K - int n) =
     Some (selectMatch sf regex K
             (scanMatches (re_matcher re) (getFullText sf) li [li ..< Suc (length (getFullText sf))]) n)"
proof (induction n arbitrary: li)
  case 0
  let ?text = "getFullText sf"
  show ?case
  proof (cases "firstMatch (re_matcher re) ?text [li ..< Suc (length ?text)]")
    case None
    then show ?thesis
      by (subst matchLoop.simps)
        (simp add: regExpExec_global [OF g s] scanMatches_firstMatch_None selectMatch_def del: upt_Suc)
  next
    case (Some ie)
    obtain i e where ie: "ie = (i, e)" by (cases ie)
    with Some have "scanMatches (re_matcher re) ?text li [li ..< Suc (length ?text)]
        = (i, e) # scanMatches (re_matcher re) ?text (if i < e then e else Suc i) [Suc i ..< Suc (length ?text)]"
      by (intro scanMatches_firstMatch_Some) (simp_all del: upt_Suc)
    with Some ie show ?thesis
      by (subst matchLoop.simps)
        (simp add: regExpExec_global [OF g s] selectMatch_def matchResolution_def del: upt_Suc)
  qed
next
  case (Suc n)
  let ?text = "getFullText sf"
  let ?m = "re_matcher re"
  show ?case
  proof (cases "firstMatch ?m ?text [li ..< Suc (length ?text)]")
    case None
    then show ?thesis
      by (subst matchLoop.simps)
        (simp add: regExpExec_global [OF g s] scanMatches_firstMatch_None selectMatch_def del: upt_Suc)
  next
    case (Some ie)
    obtain i e where ie: "ie = (i, e)" by (cases ie)
    from Some ie have fm: "firstMatch ?m ?text [li ..< Suc (length ?text)] = Some (i, e)" by simp
    then have "?m ?text i = Some e" by (auto dest: firstMatch_Some)
    then have lt: "i < e" by (rule nonempty)
    from fm have "scanMatches ?m ?text li [li ..< Suc (length ?text)]
        = (i, e) # scanMatches ?m ?text (if i < e then e else Suc i) [Suc i ..< Suc (length ?text)]"
      by (intro scanMatches_firstMatch_Some) (simp_all del: upt_Suc)
    also have "\<dots> = (i, e) # scanMatches ?m ?text e [e ..< Suc (length ?text)]"
      using lt scanMatches_upt_skip [of "Suc i" e ?m ?text "Suc (length ?text)"] by (simp del: upt_Suc)
    finally have scan: "scanMatches ?m ?text li [li ..< Suc (length ?text)]
        = (i, e) # scanMatches ?m ?text e [e ..< Suc (length ?text)]" .
    have idx: "K - int (Suc n) + 1 = K - int n" by simp
    have ne: "K - int (Suc n) \<noteq> K" by simp
    have "matchLoop re sf regex K li (K - int (Suc n)) = matchLoop re sf regex K e (K - int n)"
      using fm g ne by (subst matchLoop.simps) (simp add: regExpExec_global [OF g s] idx del: upt_Suc)
    also have "\<dots> = Some (selectMatch sf regex K (scanMatches ?m ?text e [e ..< Suc (length ?text)]) n)"
      by (rule Suc.IH)
    also have "\<dots> = Some (selectMatch sf regex K (scanMatches ?m ?text li [li ..< Suc (length ?text)]) (Suc n))"
      by (simp only: scan) (simp add: selectMatch_def)
    finally show ?thesis .
  qed
qed


lemma resolvePosition_nonempty_matches:
  assumes "compile regex (includeGlobalFlag (case fl of None \<Rightarrow> [] | Some g \<Rightarrow> g)) = Some m"
    and "CHR ''y'' \<notin> set (case fl of None \<Rightarrow> [] | Some g \<Rightarrow> g)"
    and "\<And>i e. m (getFullText sf) i = Some e \<Longrightarrow> i < e"
  shows "resolvePosition compile sf (RegexQuery f pr regex fl (Some (int k)))
           = Some (selectMatch sf regex (int k) (allMatches m (getFullText sf)) k)"
proof -
  let ?fl = "includeGlobalFlag (case fl of None \<Rightarrow> [] | Some g \<Rightarrow> g)"
  let ?re = "\<lparr>re_matcher = m, global = (CHR ''g'' \<in> set ?fl), sticky = (CHR ''y'' \<in> set ?fl)\<rparr>"
  have g: "global ?re" using includeGlobalFlag_global by simp
  have s: "\<not> sticky ?re" using assms(2) by (simp add: includeGlobalFlag_def)
  have "matchLoop ?re sf regex (int k) 0 (int k - int k) =
     Some (selectMatch sf regex (int k)
             (scanMatches (re_matcher ?re) (getFullText sf) 0 [0 ..< Suc (length (getFullText sf))]) k)"
    using g s assms(3) by (intro matchLoop_select) simp_all
  then have "matchLoop ?re sf regex (int k) 0 0 =
     Some (selectMatch sf regex (int k) (allMatches m (getFullText sf)) k)"
    by (simp add: allMatches_def del: upt_Suc)
  then show ?thesis
    using assms(1) by (simp add: resolvePosition_def newRegExp_def Let_def)
qed

text \<open>
  C1 at a pattern with an empty match. In the text of \<^verbatim>\<open>three.ts\<close> the pattern \<^verbatim>\<open>a*\<close> has
  seven non-overlapping matches, the fifth at offset 4. \<^verbatim>\<open>exec\<close> leaves \<^verbatim>\<open>lastIndex\<close> at the
  end of the match, so after the empty match at offset 1 every further call finds that match
  again: index 4 resolves to offset 1, and so does index 9, beyond the last match, where the
  resolver should fail.
\<close>

theorem resolvePosition_empty_match_repeats:
  "allMatches (starMatcher 0x61) (getFullText file3)
     = [(0, 1), (1, 1), (2, 2), (3, 3), (4, 5), (5, 5), (6, 6)]
   \<and> resolvePosition starCompiler file3 (RegexQuery ''three.ts'' None ''a*'' None (Some 4))
     = Some (Inr \<lparr>res_position = 1, res_line = 1, res_column = 2, res_matchedText = []\<rparr>)
   \<and> resolvePosition starCompiler file3 (RegexQuery ''three.ts'' None ''a*'' None (Some 9))
     = Some (Inr \<lparr>res_position = 1, res_line = 1, res_column = 2, res_matchedText = []\<rparr>)"
  by code_simp

section \<open>Properties of the fact aggregation\<close>

text \<open>
  What the loops of \<^verbatim>\<open>collectProperties\<close> compute: the keys of \<^verbatim>\<open>symbolByName\<close> are the
  names seen, \<^verbatim>\<open>presenceByName\<close> counts the members that have the name, and
  \<^verbatim>\<open>optionalFlagByName\<close> tells whether some property of that name carries the optional flag.
\<close>

lemma propertyStep_keys:
  "fst ` set (symbolByName (fst (propertyStep q (M, seen)))) = insert (getName q) (fst ` set (symbolByName M))"
  by (auto simp: propertyStep_def Let_def map_of_eq_None_iff)

lemma propertyStep_seen: "snd (propertyStep q (M, seen)) = insert (getName q) seen"
  by (auto simp: propertyStep_def Let_def)

lemma propertyStep_presence:
  "(case presenceByName (fst (propertyStep q (M, seen))) n of None \<Rightarrow> 0 | Some k \<Rightarrow> k) =
     (case presenceByName M n of None \<Rightarrow> 0 | Some k \<Rightarrow> k)
       + (if n = getName q \<and> n \<notin> seen then 1 else 0)"
  by (auto simp: propertyStep_def Let_def)

lemma propertyStep_optional:
  "(case optionalFlagByName (fst (propertyStep q (M, seen))) n of None \<Rightarrow> False | Some b \<Rightarrow> b) =
     ((case optionalFlagByName M n of None \<Rightarrow> False | Some b \<Rightarrow> b)
       \<or> (n = getName q \<and> (getFlags q AND SymbolFlags_Optional) \<noteq> 0))"
  by (auto simp: propertyStep_def Let_def split: option.splits)

lemma fold_propertyStep:
  "fst ` set (symbolByName (fst (fold propertyStep qs (M, seen))))
      = fst ` set (symbolByName M) \<union> getName ` set qs
   \<and> snd (fold propertyStep qs (M, seen)) = seen \<union> getName ` set qs
   \<and> (case presenceByName (fst (fold propertyStep qs (M, seen))) n of None \<Rightarrow> 0 | Some k \<Rightarrow> k) =
       (case presenceByName M n of None \<Rightarrow> 0 | Some k \<Rightarrow> k)
         + (if n \<in> getName ` set qs \<and> n \<notin> seen then 1 else 0)
   \<and> (case optionalFlagByName (fst (fold propertyStep qs (M, seen))) n of None \<Rightarrow> False | Some b \<Rightarrow> b) =
       ((case optionalFlagByName M n of None \<Rightarrow> False | Some b \<Rightarrow> b)
         \<or> (\<exists>q \<in> set qs. getName q = n \<and> (getFlags q AND SymbolFlags_Optional) \<noteq> 0))"
proof (induction qs arbitrary: M seen)
  case Nil
  then show ?case by simp
next
  case (Cons q qs)
  obtain M1 seen1 where step: "propertyStep q (M, seen) = (M1, seen1)" by (cases "propertyStep q (M, seen)")
  have k1: "fst ` set (symbolByName M1) = insert (getName q) (fst ` set (symbolByName M))"
    using propertyStep_keys [of q M seen] step by simp
  have s1: "seen1 = insert (getName q) seen"
    using propertyStep_seen [of q M seen] step by simp
  have p1: "(case presenceByName M1 n of None \<Rightarrow> 0 | Some k \<Rightarrow> k) =
     (case presenceByName M n of None \<Rightarrow> 0 | Some k \<Rightarrow> k)
       + (if n = getName q \<and> n \<notin> seen then 1 else 0)"
    using propertyStep_presence [of q M seen n] step by simp
  have o1: "(case optionalFlagByName M1 n of None \<Rightarrow> False | Some b \<Rightarrow> b) =
     ((case optionalFlagByName M n of None \<Rightarrow> False | Some b \<Rightarrow> b)
       \<or> (n = getName q \<and> (getFlags q AND SymbolFlags_Optional) \<noteq> 0))"
    using propertyStep_optional [of q M seen n] step by simp
  have f: "fold propertyStep (q # qs) (M, seen) = fold propertyStep qs (M1, seen1)"
    using step by simp
  note IH = Cons.IH [of M1 seen1]
  show ?case
  proof (intro conjI)
    show "fst ` set (symbolByName (fst (fold propertyStep (q # qs) (M, seen))))
            = fst ` set (symbolByName M) \<union> getName ` set (q # qs)"
      using IH k1 by (simp only: f) auto
    show "snd (fold propertyStep (q # qs) (M, seen)) = seen \<union> getName ` set (q # qs)"
      using IH s1 by (simp only: f) auto
    show "(case presenceByName (fst (fold propertyStep (q # qs) (M, seen))) n of None \<Rightarrow> 0 | Some k \<Rightarrow> k) =
       (case presenceByName M n of None \<Rightarrow> 0 | Some k \<Rightarrow> k)
         + (if n \<in> getName ` set (q # qs) \<and> n \<notin> seen then 1 else 0)"
      using IH p1 s1 by (simp only: f) auto
    show "(case optionalFlagByName (fst (fold propertyStep (q # qs) (M, seen))) n of None \<Rightarrow> False | Some b \<Rightarrow> b) =
       ((case optionalFlagByName M n of None \<Rightarrow> False | Some b \<Rightarrow> b)
         \<or> (\<exists>q \<in> set (q # qs). getName q = n \<and> (getFlags q AND SymbolFlags_Optional) \<noteq> 0))"
      using IH o1 by (simp only: f) auto
  qed
qed


lemma memberStep_facts:
  "fst ` set (symbolByName (memberStep checker member M))
      = fst ` set (symbolByName M) \<union> getName ` set (getPropertiesOfType checker (getApparentType checker member))
   \<and> (case presenceByName (memberStep checker member M) n of None \<Rightarrow> 0 | Some k \<Rightarrow> k) =
       (case presenceByName M n of None \<Rightarrow> 0 | Some k \<Rightarrow> k)
         + (if n \<in> getName ` set (getPropertiesOfType checker (getApparentType checker member)) then 1 else 0)
   \<and> (case optionalFlagByName (memberStep checker member M) n of None \<Rightarrow> False | Some b \<Rightarrow> b) =
       ((case optionalFlagByName M n of None \<Rightarrow> False | Some b \<Rightarrow> b)
         \<or> (\<exists>q \<in> set (getPropertiesOfType checker (getApparentType checker member)).
               getName q = n \<and> (getFlags q AND SymbolFlags_Optional) \<noteq> 0))"
  using fold_propertyStep [of "getPropertiesOfType checker (getApparentType checker member)" M "{}" n]
  by (simp add: memberStep_def Let_def)

lemma fold_memberStep:
  "fst ` set (symbolByName (fold (memberStep checker) ms M))
      = fst ` set (symbolByName M)
          \<union> (\<Union>member \<in> set ms. getName ` set (getPropertiesOfType checker (getApparentType checker member)))
   \<and> (case presenceByName (fold (memberStep checker) ms M) n of None \<Rightarrow> 0 | Some k \<Rightarrow> k) =
       (case presenceByName M n of None \<Rightarrow> 0 | Some k \<Rightarrow> k)
         + length (filter (\<lambda>member. n \<in> getName ` set (getPropertiesOfType checker (getApparentType checker member))) ms)
   \<and> (case optionalFlagByName (fold (memberStep checker) ms M) n of None \<Rightarrow> False | Some b \<Rightarrow> b) =
       ((case optionalFlagByName M n of None \<Rightarrow> False | Some b \<Rightarrow> b)
         \<or> (\<exists>member \<in> set ms. \<exists>q \<in> set (getPropertiesOfType checker (getApparentType checker member)).
               getName q = n \<and> (getFlags q AND SymbolFlags_Optional) \<noteq> 0))"
proof (induction ms arbitrary: M)
  case Nil
  then show ?case by simp
next
  case (Cons member ms)
  note step = memberStep_facts [of checker member M n]
  note IH = Cons.IH [of "memberStep checker member M"]
  show ?case
  proof (intro conjI)
    show "fst ` set (symbolByName (fold (memberStep checker) (member # ms) M))
      = fst ` set (symbolByName M)
          \<union> (\<Union>member \<in> set (member # ms). getName ` set (getPropertiesOfType checker (getApparentType checker member)))"
      using IH step by auto
    show "(case presenceByName (fold (memberStep checker) (member # ms) M) n of None \<Rightarrow> 0 | Some k \<Rightarrow> k) =
       (case presenceByName M n of None \<Rightarrow> 0 | Some k \<Rightarrow> k)
         + length (filter (\<lambda>member. n \<in> getName ` set (getPropertiesOfType checker (getApparentType checker member))) (member # ms))"
      using IH step by simp
    show "(case optionalFlagByName (fold (memberStep checker) (member # ms) M) n of None \<Rightarrow> False | Some b \<Rightarrow> b) =
       ((case optionalFlagByName M n of None \<Rightarrow> False | Some b \<Rightarrow> b)
         \<or> (\<exists>member \<in> set (member # ms). \<exists>q \<in> set (getPropertiesOfType checker (getApparentType checker member)).
               getName q = n \<and> (getFlags q AND SymbolFlags_Optional) \<noteq> 0))"
      using IH step by auto
  qed
qed

lemma length_filter_less_iff: "length (filter P xs) < length xs \<longleftrightarrow> (\<exists>x \<in> set xs. \<not> P x)"
proof
  assume "length (filter P xs) < length xs"
  then have "filter P xs \<noteq> xs" by auto
  then show "\<exists>x \<in> set xs. \<not> P x" by (auto simp: filter_id_conv)
next
  assume "\<exists>x \<in> set xs. \<not> P x"
  then show "length (filter P xs) < length xs" by (auto intro: length_filter_less)
qed

text \<open>
  C4. A property in the result is reported optional exactly when some property of its name
  on a contributing member of the non-nullable projection carries the optional flag, or the
  projection is a union and some member of the union has no property of that name. So a
  property on some but not all members of a union is optional without any optional marker.
\<close>

theorem collectProperties_optional:
  assumes "p \<in> set (collectProperties ty checker n limit)"
  shows "optional p \<longleftrightarrow>
     (\<exists>member \<in> set (memberTypesOf checker ty).
        \<exists>q \<in> set (getPropertiesOfType checker (getApparentType checker member)).
          getName q = prop_name p \<and> (getFlags q AND SymbolFlags_Optional) \<noteq> 0)
     \<or> ((getTypeFlags (getNonNullableType checker ty) AND TypeFlags_Union) \<noteq> 0
        \<and> (\<exists>member \<in> set (memberTypesOf checker ty).
              prop_name p \<notin> getName ` set (getPropertiesOfType checker (getApparentType checker member))))"
proof -
  let ?ms = "memberTypesOf checker ty"
  let ?init = "\<lparr>symbolByName = [], presenceByName = Map.empty, optionalFlagByName = Map.empty\<rparr>"
  let ?M = "fold (memberStep checker) ?ms ?init"
  let ?props = "\<lambda>member. getPropertiesOfType checker (getApparentType checker member)"
  let ?total = "if length ?ms > 0 then length ?ms else 1"
  let ?name = "prop_name p"
  from assms obtain name where name: "name \<in> set (take limit (sort (map fst (symbolByName ?M))))"
    and p: "optional p =
         ((case optionalFlagByName ?M name of None \<Rightarrow> False | Some b \<Rightarrow> b)
          \<or> (case presenceByName ?M name of None \<Rightarrow> 0 | Some k \<Rightarrow> k) < ?total)"
    and pn: "prop_name p = name"
    by (auto simp: collectProperties_def Let_def)
  from name have "name \<in> set (sort (map fst (symbolByName ?M)))" by (rule in_set_takeD)
  then have key: "name \<in> fst ` set (symbolByName ?M)" by simp
  note facts = fold_memberStep [of checker ?ms ?init name]
  from key facts obtain member0 where m0: "member0 \<in> set ?ms" "name \<in> getName ` set (?props member0)"
    by auto
  then have total: "?total = length ?ms" by (cases ?ms) auto
  have flag: "(case optionalFlagByName ?M name of None \<Rightarrow> False | Some b \<Rightarrow> b) =
      (\<exists>member \<in> set ?ms. \<exists>q \<in> set (?props member).
          getName q = name \<and> (getFlags q AND SymbolFlags_Optional) \<noteq> 0)"
    using facts by simp
  have "(case presenceByName ?M name of None \<Rightarrow> 0 | Some k \<Rightarrow> k)
          = length (filter (\<lambda>member. name \<in> getName ` set (?props member)) ?ms)"
    using facts by simp
  then have pres: "((case presenceByName ?M name of None \<Rightarrow> 0 | Some k \<Rightarrow> k) < ?total) =
      (\<exists>member \<in> set ?ms. name \<notin> getName ` set (?props member))"
    by (simp only: total length_filter_less_iff)
  have union: "(getTypeFlags (getNonNullableType checker ty) AND TypeFlags_Union) \<noteq> 0"
    if "member \<in> set ?ms" "name \<notin> getName ` set (?props member)" for member
  proof (rule ccontr)
    assume "\<not> (getTypeFlags (getNonNullableType checker ty) AND TypeFlags_Union) \<noteq> 0"
    then have "?ms = [getNonNullableType checker ty]" by (simp add: memberTypesOf_def)
    with that m0 show False by auto
  qed
  show ?thesis
    unfolding p pn flag pres using union by blast
qed

text \<open>
  The union \<^verbatim>\<open>{ id: string } | { id: string; email: string }\<close>: \<^verbatim>\<open>email\<close> is optional, being
  absent from the first member, and \<^verbatim>\<open>id\<close> is not.
\<close>

theorem collectProperties_optional_witness:
  "collectProperties exampleUnion exampleChecker (rootNode file3) 25 =
     [\<lparr>prop_name = ''email'', prop_type = ''string'', optional = True\<rparr>,
      \<lparr>prop_name = ''id'', prop_type = ''string'', optional = False\<rparr>]
   \<and> (\<exists>member \<in> set (memberTypesOf exampleChecker exampleUnion).
         ''email'' \<notin> getName ` set (getPropertiesOfType exampleChecker (getApparentType exampleChecker member)))
   \<and> (\<exists>member \<in> set (memberTypesOf exampleChecker exampleUnion).
         ''email'' \<in> getName ` set (getPropertiesOfType exampleChecker (getApparentType exampleChecker member)))"
proof -
  have run: "collectProperties exampleUnion exampleChecker (rootNode file3) 25 =
     [\<lparr>prop_name = ''email'', prop_type = ''string'', optional = True\<rparr>,
      \<lparr>prop_name = ''id'', prop_type = ''string'', optional = False\<rparr>]"
    by code_simp
  have noflag: "(getFlags q AND SymbolFlags_Optional) = 0"
    if "member \<in> set (memberTypesOf exampleChecker exampleUnion)"
      "q \<in> set (getPropertiesOfType exampleChecker (getApparentType exampleChecker member))"
    for member q
    using that
    by (auto simp: memberTypesOf_def exampleChecker_def exampleUnion_def exampleMember1_def
        exampleMember2_def TypeFlags_Union_def SymbolFlags_Optional_def split: if_splits)
  have "\<lparr>prop_name = ''email'', prop_type = ''string'', optional = True\<rparr>
          \<in> set (collectProperties exampleUnion exampleChecker (rootNode file3) 25)"
    by (simp only: run) simp
  from collectProperties_optional [OF this] noflag
  have absent: "\<exists>member \<in> set (memberTypesOf exampleChecker exampleUnion).
         ''email'' \<notin> getName ` set (getPropertiesOfType exampleChecker (getApparentType exampleChecker member))"
    by auto
  have present: "\<exists>member \<in> set (memberTypesOf exampleChecker exampleUnion).
         ''email'' \<in> getName ` set (getPropertiesOfType exampleChecker (getApparentType exampleChecker member))"
    by (auto simp: memberTypesOf_def exampleChecker_def exampleUnion_def exampleMember1_def
        exampleMember2_def TypeFlags_Union_def)
  from run absent present show ?thesis by blast
qed

section \<open>Properties of the query operation\<close>

text \<open>
  A successful query went through every step: the file was loaded, the resolver succeeded,
  the checker gave a type for the located node, and the record was assembled from these.
  After the resolver the outcome rests with the type query alone.
\<close>

lemma pickType_success:
  assumes "pickType env query = Some (Inr info)"
  obtains ctx sf r ty where "loaded env query ctx sf"
    and "resolvePosition (compileRegExp env) sf query = Some (Inr r)"
    and "getTypeAtLocation (getTypeChecker (program ctx)) (findClosestNode sf (res_position r)) = Inr ty"
    and "offset (position info) = res_position r"
    and "matchedText info =
           (if length (res_matchedText r) > 0 then res_matchedText r
            else getText sf (findClosestNode sf (res_position r)))"
    and "symbol info = None \<longleftrightarrow>
           symbolAt (getTypeChecker (program ctx)) (findClosestNode sf (res_position r)) ty = None"
    and "declarations info =
           (case symbolAt (getTypeChecker (program ctx)) (findClosestNode sf (res_position r)) ty of
              Some s \<Rightarrow> collectDeclarations s 10 (path_normalize env)
            | None \<Rightarrow> [])"
proof -
  let ?file = "path_resolve env (q_file query)"
  from assms have ex: "fs_existsSync env ?file"
    by (auto simp: pickType_def Let_def split: if_splits)
  from assms ex obtain ctx where ctx: "createProgramForFile env ?file (q_project query) = Inr ctx"
    by (auto simp: pickType_def Let_def split: sum.splits)
  let ?found = "find (\<lambda>s. getCanonicalFileName ctx (fileName s) = getCanonicalFileName ctx ?file)
                  (getSourceFiles (program ctx))"
  from assms ex ctx obtain sf where sf: "?found = Some sf"
    by (auto simp: pickType_def Let_def split: option.splits)
  from assms ex ctx sf obtain r where r: "resolvePosition (compileRegExp env) sf query = Some (Inr r)"
    by (auto simp: pickType_def Let_def split: option.splits sum.splits)
  from assms ex ctx sf r obtain ty where
    ty: "getTypeAtLocation (getTypeChecker (program ctx)) (findClosestNode sf (res_position r)) = Inr ty"
    by (auto simp: pickType_def Let_def split: sum.splits)
  have l: "loaded env query ctx sf" using ex ctx sf by (simp add: loaded_def)
  from assms ex ctx sf r ty have props:
    "offset (position info) = res_position r"
    "matchedText info =
               (if length (res_matchedText r) > 0 then res_matchedText r
                else getText sf (findClosestNode sf (res_position r)))"
    "symbol info = None \<longleftrightarrow>
                symbolAt (getTypeChecker (program ctx)) (findClosestNode sf (res_position r)) ty = None"
    "declarations info =
               (case symbolAt (getTypeChecker (program ctx)) (findClosestNode sf (res_position r)) ty of
                  Some s \<Rightarrow> collectDeclarations s 10 (path_normalize env)
                | None \<Rightarrow> [])"
    by (auto simp: pickType_def Let_def symbolAt_def split: option.splits)
  show thesis by (rule that [OF l r ty props])
qed

lemma pickType_type_error:
  assumes "loaded env query ctx sf"
    and "resolvePosition (compileRegExp env) sf query = Some (Inr r)"
    and "getTypeAtLocation (getTypeChecker (program ctx)) (findClosestNode sf (res_position r)) = Inl err"
  shows "pickType env query = Some (Inl err)"
  using assms by (simp add: pickType_def loaded_def Let_def)

lemma pickType_returns:
  assumes "loaded env query ctx sf"
    and "resolvePosition (compileRegExp env) sf query = Some (Inr r)"
    and "getTypeAtLocation (getTypeChecker (program ctx)) (findClosestNode sf (res_position r)) = Inr ty"
  shows "\<exists>info. pickType env query = Some (Inr info)
           \<and> (symbol info = None \<longleftrightarrow>
                symbolAt (getTypeChecker (program ctx)) (findClosestNode sf (res_position r)) ty = None)"
  using assms by (simp add: pickType_def loaded_def Let_def symbolAt_def split: option.splits)

lemma resolvePosition_position_matchedText:
  "resolvePosition compile sf (PositionQuery f pr l c) = Some (Inr r) \<Longrightarrow> res_matchedText r = []"
  by (auto simp: resolvePosition_def split: if_splits sum.splits)

text \<open>
  C2, as the code has it. For every successful position query the resolution of the resolver
  has an empty matched text, and the matched text of the returned record is the text of the
  located node, from its start to its end: \<^verbatim>\<open>pickType\<close> falls back to \<^verbatim>\<open>node.getText()\<close> when
  the resolution matched nothing.
\<close>

theorem pickType_position_matchedText:
  assumes "pickType env (PositionQuery f pr l c) = Some (Inr info)"
  shows "\<exists>ctx sf r. loaded env (PositionQuery f pr l c) ctx sf
           \<and> resolvePosition (compileRegExp env) sf (PositionQuery f pr l c) = Some (Inr r)
           \<and> res_matchedText r = []
           \<and> matchedText info = getText sf (findClosestNode sf (offset (position info)))"
proof -
  from assms obtain ctx sf r where
    l: "loaded env (PositionQuery f pr l c) ctx sf"
    and r: "resolvePosition (compileRegExp env) sf (PositionQuery f pr l c) = Some (Inr r)"
    and off: "offset (position info) = res_position r"
    and m: "matchedText info =
               (if length (res_matchedText r) > 0 then res_matchedText r
                else getText sf (findClosestNode sf (res_position r)))"
    by (rule pickType_success)
  have e: "res_matchedText r = []" using r by (rule resolvePosition_position_matchedText)
  with m off have "matchedText info = getText sf (findClosestNode sf (offset (position info)))"
    by simp
  then show ?thesis
    by (intro exI [of _ ctx] exI [of _ sf] exI [of _ r] conjI) (rule l r e | assumption)+
qed

text \<open>
  C2 as stated fails: the position query for line 2, column 2 of \<^verbatim>\<open>three.ts\<close> returns a record
  whose matched text is \<^verbatim>\<open>cab\<close>, the identifier at that position.
\<close>

theorem pickType_position_matchedText_counterexample:
  "map_option (map_sum id matchedText) (pickType exampleEnv (PositionQuery ''three.ts'' None 2 2))
     = Some (Inr [0x63, 0x61, 0x62])"
  by code_simp

text \<open>The same query: offset 4, and the matched text is the text of the identifier found there.\<close>

theorem pickType_position_matchedText_witness:
  "map_option (map_sum id (\<lambda>info. (offset (position info), matchedText info)))
       (pickType exampleEnv (PositionQuery ''three.ts'' None 2 2))
     = Some (Inr (4, getText file3 (findClosestNode file3 4)))
   \<and> findClosestNode file3 4 = Node ''Identifier'' 2 3 6 []"
proof -
  have "map_option (map_sum id (\<lambda>info. offset (position info)))
          (pickType exampleEnv (PositionQuery ''three.ts'' None 2 2)) = Some (Inr 4)"
    by code_simp
  then obtain x where x: "pickType exampleEnv (PositionQuery ''three.ts'' None 2 2) = Some x"
    and ox: "map_sum id (\<lambda>info. offset (position info)) x = Inr 4"
    by auto
  from ox obtain info where "x = Inr info" and off: "offset (position info) = 4"
    by (cases x) auto
  with x have run: "pickType exampleEnv (PositionQuery ''three.ts'' None 2 2) = Some (Inr info)"
    by simp
  from pickType_position_matchedText [OF run] obtain ctx sf where
    l: "loaded exampleEnv (PositionQuery ''three.ts'' None 2 2) ctx sf"
    and m: "matchedText info = getText sf (findClosestNode sf (offset (position info)))"
    by (elim exE conjE)
  from l have "sf = file3" by (auto simp: loaded_def exampleEnv_def file3_def split: if_splits)
  with m off have "matchedText info = getText file3 (findClosestNode file3 4)" by simp
  moreover have "findClosestNode file3 4 = Node ''Identifier'' 2 3 6 []"
    by (simp add: findClosestNode_def file3_def)
  ultimately show ?thesis using run off by simp
qed

text \<open>
  C10. In every successfully returned record the symbol field is absent exactly when no
  symbol is resolved for the located node, neither one bound to the node nor the one of its
  type, and then the list of declarations is empty: the declarations are never non-empty
  without a symbol. And the absence of a symbol is no cause of failure: once the file is
  loaded and the resolver has succeeded, the query fails exactly when the checker throws on
  the type of the located node, with the checker's exception, and otherwise it returns a
  record, whose symbol field is absent when no symbol is resolved. The type query precedes
  the resolution of the symbol; the queries the program makes after it, fewer without a
  symbol than with one, are taken to return.
\<close>

theorem pickType_symbol_absent:
  "(pickType env query = Some (Inr info) \<longrightarrow>
      (\<exists>ctx sf r ty. loaded env query ctx sf
         \<and> resolvePosition (compileRegExp env) sf query = Some (Inr r)
         \<and> getTypeAtLocation (getTypeChecker (program ctx)) (findClosestNode sf (res_position r)) = Inr ty
         \<and> (symbol info = None \<longleftrightarrow>
              symbolAt (getTypeChecker (program ctx)) (findClosestNode sf (res_position r)) ty = None))
      \<and> (symbol info = None \<longrightarrow> declarations info = []))
   \<and> (loaded env query ctx' sf' \<and> resolvePosition (compileRegExp env) sf' query = Some (Inr r')
        \<longrightarrow> (case getTypeAtLocation (getTypeChecker (program ctx')) (findClosestNode sf' (res_position r')) of
               Inl err \<Rightarrow> pickType env query = Some (Inl err)
             | Inr ty' \<Rightarrow>
                 (\<exists>info'. pickType env query = Some (Inr info')
                    \<and> (symbol info' = None \<longleftrightarrow>
                         symbolAt (getTypeChecker (program ctx')) (findClosestNode sf' (res_position r')) ty'
                           = None))))"
proof (intro conjI impI)
  assume run: "pickType env query = Some (Inr info)"
  from run obtain ctx sf r ty where
    l: "loaded env query ctx sf"
    and r: "resolvePosition (compileRegExp env) sf query = Some (Inr r)"
    and t: "getTypeAtLocation (getTypeChecker (program ctx)) (findClosestNode sf (res_position r)) = Inr ty"
    and s: "symbol info = None \<longleftrightarrow>
              symbolAt (getTypeChecker (program ctx)) (findClosestNode sf (res_position r)) ty = None"
    and d: "declarations info =
               (case symbolAt (getTypeChecker (program ctx)) (findClosestNode sf (res_position r)) ty of
                  Some s \<Rightarrow> collectDeclarations s 10 (path_normalize env)
                | None \<Rightarrow> [])"
    by (rule pickType_success)
  show "\<exists>ctx sf r ty. loaded env query ctx sf
         \<and> resolvePosition (compileRegExp env) sf query = Some (Inr r)
         \<and> getTypeAtLocation (getTypeChecker (program ctx)) (findClosestNode sf (res_position r)) = Inr ty
         \<and> (symbol info = None \<longleftrightarrow>
              symbolAt (getTypeChecker (program ctx)) (findClosestNode sf (res_position r)) ty = None)"
    by (intro exI [of _ ctx] exI [of _ sf] exI [of _ r] exI [of _ ty] conjI) (rule l r t s)+
  show "declarations info = []" if "symbol info = None"
    using that s d by simp
next
  assume a: "loaded env query ctx' sf' \<and> resolvePosition (compileRegExp env) sf' query = Some (Inr r')"
  show "case getTypeAtLocation (getTypeChecker (program ctx')) (findClosestNode sf' (res_position r')) of
               Inl err \<Rightarrow> pickType env query = Some (Inl err)
             | Inr ty' \<Rightarrow>
                 (\<exists>info'. pickType env query = Some (Inr info')
                    \<and> (symbol info' = None \<longleftrightarrow>
                         symbolAt (getTypeChecker (program ctx')) (findClosestNode sf' (res_position r')) ty'
                           = None))"
  proof (cases "getTypeAtLocation (getTypeChecker (program ctx')) (findClosestNode sf' (res_position r'))")
    case (Inl err)
    with a have "pickType env query = Some (Inl err)" by (intro pickType_type_error) simp_all
    with Inl show ?thesis by simp
  next
    case (Inr ty')
    with a have "\<exists>info'. pickType env query = Some (Inr info')
           \<and> (symbol info' = None \<longleftrightarrow>
                symbolAt (getTypeChecker (program ctx')) (findClosestNode sf' (res_position r')) ty' = None)"
      by (intro pickType_returns) simp_all
    with Inr show ?thesis by simp
  qed
qed

text \<open>
  Two queries under the example oracle, which resolves no symbol. The second match of
  \<^verbatim>\<open>ab\<close> in \<^verbatim>\<open>three.ts\<close> lies on an identifier: the query succeeds, without symbol and without
  declarations. Line 1, column 2 of \<^verbatim>\<open>one.ts\<close> lies in leading trivia, the locator returns the
  root of the file, the checker throws, and the query fails with that exception.
\<close>

theorem pickType_symbol_absent_witness:
  "map_option (map_sum id (\<lambda>info. (symbol info, declarations info)))
       (pickType exampleEnv (RegexQuery ''three.ts'' None ''ab'' None (Some 1)))
     = Some (Inr (None, []))
   \<and> symbolAt exampleChecker (findClosestNode file3 4) exampleUnion = None
   \<and> findClosestNode file1 1 = rootNode file1
   \<and> pickType exampleEnv (PositionQuery ''one.ts'' None 1 2) = Some (Inl DebugFailure)"
proof -
  have "map_option (map_sum id symbol) (pickType exampleEnv (RegexQuery ''three.ts'' None ''ab'' None (Some 1)))
          = Some (Inr None)"
    by code_simp
  then obtain x where x: "pickType exampleEnv (RegexQuery ''three.ts'' None ''ab'' None (Some 1)) = Some x"
    and sx: "map_sum id symbol x = Inr None"
    by auto
  from sx obtain info where "x = Inr info" and none: "symbol info = None"
    by (cases x) auto
  with x have run: "pickType exampleEnv (RegexQuery ''three.ts'' None ''ab'' None (Some 1)) = Some (Inr info)"
    by simp
  from pickType_symbol_absent [of exampleEnv "RegexQuery ''three.ts'' None ''ab'' None (Some 1)" info] run none
  have decls: "declarations info = []" by blast
  have absent: "symbolAt exampleChecker (findClosestNode file3 4) exampleUnion = None"
    by (simp add: symbolAt_def exampleChecker_def exampleUnion_def)
  let ?q = "PositionQuery ''one.ts'' None 1 2"
  let ?ctx = "\<lparr>program = \<lparr>getSourceFiles = [file3, file1], getTypeChecker = exampleChecker,
                            getPreEmitDiagnostics = (\<lambda>sf. [])\<rparr>,
                getCanonicalFileName = (\<lambda>f. f), configPath = None\<rparr>"
  let ?r = "\<lparr>res_position = 1, res_line = 1, res_column = 2, res_matchedText = []\<rparr>"
  have l: "loaded exampleEnv ?q ?ctx file1"
    by (simp add: loaded_def exampleEnv_def file1_def file3_def)
  have r: "resolvePosition (compileRegExp exampleEnv) file1 ?q = Some (Inr ?r)"
    by (simp add: resolvePosition_def getPositionOfLineAndCharacter_def file1_def)
  have root: "findClosestNode file1 1 = rootNode file1"
    by (simp add: findClosestNode_def file1_def tree1_statement_def tree1_x_def)
  have thrown: "getTypeAtLocation (getTypeChecker (program ?ctx)) (findClosestNode file1 (res_position ?r))
                  = Inl DebugFailure"
    using root by (simp add: exampleChecker_def file1_def)
  from pickType_symbol_absent [of exampleEnv ?q _ ?ctx file1 ?r] l r thrown
  have failed: "pickType exampleEnv ?q = Some (Inl DebugFailure)" by simp
  from run none decls absent root failed show ?thesis by simp
qed

end
